theory Spec2Isabelle
  imports Main
begin

section \<open>Python values and errors\<close>

text \<open>
  The exceptions the modelled functions can raise. A function that may raise returns
  \<open>error + 'a\<close>, with \<open>Inl\<close> carrying the exception.
\<close>

datatype error = IndexError | ValueError | OverflowError | HomeAssistantError

text \<open>\<open>xs[i]\<close> for a Python integer \<open>i\<close>: a negative index counts from the end.\<close>

definition py_index :: "'a list \<Rightarrow> int \<Rightarrow> error + 'a" where
  "py_index xs i =
     (if 0 \<le> i \<and> i < int (length xs) then Inr (xs ! nat i)
      else if i < 0 \<and> 0 \<le> int (length xs) + i then Inr (xs ! nat (int (length xs) + i))
      else Inl IndexError)"

text \<open>\<open>xs[i:]\<close> and \<open>xs[:i]\<close>: slices clamp and never raise.\<close>

definition py_slice_from :: "'a list \<Rightarrow> int \<Rightarrow> 'a list" where
  "py_slice_from xs i =
     (if i < 0 then drop (nat (int (length xs) + i)) xs else drop (nat i) xs)"

definition py_slice_to :: "'a list \<Rightarrow> int \<Rightarrow> 'a list" where
  "py_slice_to xs i =
     (if i < 0 then take (nat (int (length xs) + i)) xs else take (nat i) xs)"

text \<open>\<open>range(a, b)\<close> for non-negative bounds.\<close>

definition py_range :: "nat \<Rightarrow> nat \<Rightarrow> int list" where
  "py_range a b = map int [a..<b]"

section \<open>Dates and local date-times\<close>

text \<open>
  A \<open>datetime.date\<close> is represented by its proleptic Gregorian ordinal
  (\<open>date.toordinal()\<close>), which ranges over \<open>1 .. 3652059\<close>; arithmetic that leaves the
  range raises \<open>OverflowError\<close>. A \<open>datetime\<close> is its wall-clock reading; all the
  date-times of one function carry the same time zone, so Python compares them field by
  field.
\<close>

type_synonym date = int

definition MAXORDINAL :: int where
  "MAXORDINAL = 3652059"

record datetime =
  dt_date :: date
  hour :: nat
  minute :: nat
  second :: nat
  microsecond :: nat

definition valid_datetime :: "datetime \<Rightarrow> bool" where
  "valid_datetime t \<longleftrightarrow>
     1 \<le> dt_date t \<and> dt_date t \<le> MAXORDINAL \<and> hour t < 24 \<and> minute t < 60 \<and>
     second t < 60 \<and> microsecond t < 1000000"

text \<open>\<open>a < b\<close> and \<open>a <= b\<close> on date-times of one time zone.\<close>

definition dt_less :: "datetime \<Rightarrow> datetime \<Rightarrow> bool" where
  "dt_less a b \<longleftrightarrow>
     dt_date a < dt_date b \<or> (dt_date a = dt_date b \<and>
      (hour a < hour b \<or> (hour a = hour b \<and>
        (minute a < minute b \<or> (minute a = minute b \<and>
          (second a < second b \<or> (second a = second b \<and>
            microsecond a < microsecond b)))))))"

definition dt_le :: "datetime \<Rightarrow> datetime \<Rightarrow> bool" where
  "dt_le a b \<longleftrightarrow> dt_less a b \<or>
     (dt_date a = dt_date b \<and> hour a = hour b \<and> minute a = minute b \<and>
      second a = second b \<and> microsecond a = microsecond b)"

text \<open>\<open>t + timedelta(minutes=m)\<close> and \<open>t + timedelta(days=d)\<close>, on the wall clock.\<close>

definition dt_add_minutes :: "datetime \<Rightarrow> nat \<Rightarrow> error + datetime" where
  "dt_add_minutes t m =
     (let total = hour t * 60 + minute t + m;
          d = dt_date t + int (total div 1440);
          r = total mod 1440
      in if d < 1 \<or> MAXORDINAL < d then Inl OverflowError
         else Inr (t\<lparr>dt_date := d, hour := r div 60, minute := r mod 60\<rparr>))"

definition date_add_days :: "date \<Rightarrow> nat \<Rightarrow> error + date" where
  "date_add_days d k =
     (if d + int k < 1 \<or> MAXORDINAL < d + int k then Inl OverflowError
      else Inr (d + int k))"

definition dt_add_days :: "datetime \<Rightarrow> nat \<Rightarrow> error + datetime" where
  "dt_add_days t k =
     (case date_add_days (dt_date t) k of
        Inl e \<Rightarrow> Inl e
      | Inr d \<Rightarrow> Inr (t\<lparr>dt_date := d\<rparr>))"

text \<open>
  An absolute instant, as \<open>dt_util.as_utc\<close> yields it from a local date-time. The
  conversion belongs to the host framework and is a parameter \<open>as_utc\<close> of the functions
  that call it.
\<close>

type_synonym instant = int

text \<open>
  Sample instances of the host's conversions: a fixed offset of two hours (in seconds
  from the local wall clock) for \<open>as_utc\<close>, and the ISO labels of 1 and 2 January and
  of 31 March 2024.
\<close>

definition as_utc_sample :: "datetime \<Rightarrow> instant" where
  "as_utc_sample t =
     ((dt_date t * 24 + int (hour t)) * 60 + int (minute t)) * 60 + int (second t) - 7200"

definition isoformat_sample :: "date \<Rightarrow> string" where
  "isoformat_sample d = (if d = 738886 then ''2024-01-01'' else ''2024-01-02'')"

definition fromisoformat_sample :: "string \<Rightarrow> date option" where
  "fromisoformat_sample s =
     (if s = ''2024-01-01'' then Some 738886
      else if s = ''2024-01-02'' then Some 738887
      else if s = ''2024-03-31'' then Some 738976 else None)"

text \<open>
  The conversion of the zone Europe/Kyiv, which \<open>calendar.py\<close> fixes as \<open>TZ_KYIV\<close>, for
  the months around its clock change of 31 March 2024 (ordinal 738976): local time is two
  hours ahead of UTC up to 03:00 of that day and three hours ahead from 04:00 on; the
  local hour from 03:00 to 03:59, which the clock skips, is read with the earlier offset.
\<close>

definition as_utc_kyiv :: "datetime \<Rightarrow> instant" where
  "as_utc_kyiv t =
     ((dt_date t * 24 + int (hour t)) * 60 + int (minute t)) * 60 + int (second t)
       - (if 738976 < dt_date t \<or> (dt_date t = 738976 \<and> 4 \<le> hour t) then 10800 else 7200)"

section \<open>Schedule parser (coordinator.py)\<close>

text \<open>
  Modelled from the spec: \<open>CLASS_MAP\<close> is imported from \<open>const.py\<close>, which is not among
  the sources; only the membership test \<open>c in CLASS_MAP\<close> is used, and the spec gives the
  recognised class codes as on, off, f4 and f5.
\<close>

definition CLASS_MAP :: "string list" where
  "CLASS_MAP = [''on'', ''off'', ''f4'', ''f5'']"

fun halfhours_from_hour_class :: "string \<Rightarrow> string list" where
  "halfhours_from_hour_class cls =
     (if cls = ''on'' then [''on'', ''on'']
      else if cls = ''off'' then [''off'', ''off'']
      else if cls = ''f4'' then [''off'', ''on'']
      else if cls = ''f5'' then [''on'', ''off'']
      else [''on'', ''on''])"

text \<open>
  A table cell as the parser reads it: its stripped text and the values of its
  \<open>class\<close> attribute (\<open>td.get("class", [])\<close>, empty when the attribute is absent).
  A row is the list of its cells, a table the list of its body rows.
\<close>

record td =
  td_text :: string
  td_class :: "string list"

type_synonym tr = "td list"
type_synonym table = "tr list"

text \<open>\<open>next((c for c in td.get("class", []) if c in CLASS_MAP), "on")\<close>\<close>

fun first_class :: "string list \<Rightarrow> string" where
  "first_class [] = ''on''"
| "first_class (c # cs) = (if c \<in> set CLASS_MAP then c else first_class cs)"

text \<open>The two loops of \<open>parse_table\<close>, each appending to its accumulator.\<close>

fun hour_classes_loop :: "td list \<Rightarrow> string list \<Rightarrow> string list" where
  "hour_classes_loop [] hour_classes = hour_classes"
| "hour_classes_loop (c # cells) hour_classes =
     hour_classes_loop cells (hour_classes @ [first_class (td_class c)])"

fun halfhours_loop :: "string list \<Rightarrow> string list \<Rightarrow> string list" where
  "halfhours_loop [] halfhours = halfhours"
| "halfhours_loop (cls # rest) halfhours =
     halfhours_loop rest (halfhours @ halfhours_from_hour_class cls)"

text \<open>
  \<open>parse_table\<close>. The date parser \<open>datetime.strptime(_, "%d.%m.%Y").date()\<close> is the
  parameter \<open>strptime\<close>; \<open>None\<close> stands for its \<open>ValueError\<close>.
\<close>

definition parse_table ::
  "(string \<Rightarrow> date option) \<Rightarrow> table \<Rightarrow> error + (date \<times> string list \<times> string list)" where
  "parse_table strptime rows =
     (if length rows < 2 then Inl ValueError
      else case py_index (rows ! 0) 0 of
        Inl e \<Rightarrow> Inl e
      | Inr header_td \<Rightarrow>
          (case strptime (td_text header_td) of
             None \<Rightarrow> Inl ValueError
           | Some day \<Rightarrow>
               (let cells = py_slice_from (rows ! 1) 1;
                    cells = (if length cells \<noteq> 24 then py_slice_to cells 24 else cells);
                    hour_classes = hour_classes_loop cells [];
                    halfhours = halfhours_loop hour_classes []
                in Inr (day, hour_classes, halfhours))))"

text \<open>A sample date parser: it knows the label of 1 January 2024 (ordinal 738886).\<close>

definition strptime_sample :: "string \<Rightarrow> date option" where
  "strptime_sample s = (if s = ''01.01.2024'' then Some 738886 else None)"

section \<open>Transition calculator (coordinator.py)\<close>

fun next_change_scan :: "string list \<Rightarrow> string \<Rightarrow> int \<Rightarrow> int list \<Rightarrow> error + int option" where
  "next_change_scan series cur idx [] = Inr None"
| "next_change_scan series cur idx (step # steps) =
     (let j = (idx + step) mod int (length series)
      in case py_index series j of
           Inl e \<Rightarrow> Inl e
         | Inr s \<Rightarrow> if s \<noteq> cur then Inr (Some j)
                    else next_change_scan series cur idx steps)"

definition next_change_idx :: "string list \<Rightarrow> int \<Rightarrow> error + int option" where
  "next_change_idx series idx =
     (case py_index series idx of
        Inl e \<Rightarrow> Inl e
      | Inr cur \<Rightarrow> next_change_scan series cur idx (py_range 1 (length series + 1)))"

text \<open>\<open>next((i for i, s in enumerate(seq2) if s in target_states), None)\<close>\<close>

fun first_pos :: "string list \<Rightarrow> string list \<Rightarrow> nat \<Rightarrow> nat option" where
  "first_pos target_states [] i = None"
| "first_pos target_states (s # seq2) i =
     (if s \<in> set target_states then Some i else first_pos target_states seq2 (Suc i))"

type_synonym pack = "date \<times> string list \<times> string list"

text \<open>
  \<open>find_next_at\<close>. The clock reading \<open>dt_util.now()\<close> taken inside the function is the
  parameter \<open>now\<close>; a tuple is truthy, so \<open>if tomorrow_pack\<close> tests for \<open>None\<close>.
\<close>

definition find_next_at ::
  "(datetime \<Rightarrow> instant) \<Rightarrow> datetime \<Rightarrow> string list \<Rightarrow> date \<Rightarrow> string list \<Rightarrow> int
     \<Rightarrow> pack option \<Rightarrow> error + instant option" where
  "find_next_at as_utc now target_states base_date today_half idx tomorrow_pack =
     (let seq = py_slice_from today_half (idx + 1) @ py_slice_to today_half (idx + 1);
          seq2 = (case tomorrow_pack of
                    None \<Rightarrow> seq
                  | Some (d, hc, tomorrow_half) \<Rightarrow> seq @ tomorrow_half)
      in case first_pos target_states seq2 0 of
           None \<Rightarrow> Inr None
         | Some pos \<Rightarrow>
             (let now_local = now\<lparr>second := 0, microsecond := 0\<rparr>;
                  minute_block_start = (if minute now_local < 30 then 0 else 30);
                  base_aligned = now_local\<lparr>minute := minute_block_start\<rparr>
              in case dt_add_minutes base_aligned ((pos + 1) * 30) of
                   Inl e \<Rightarrow> Inl e
                 | Inr next_local \<Rightarrow> Inr (Some (as_utc next_local))))"

text \<open>
  Two parts of \<open>find_next_at\<close> under names of their own, for the statements below: the
  sequence \<open>seq2\<close> it searches, and its local \<open>base_aligned\<close>, the clock reading cut
  back to the start of its half-hour.
\<close>

definition search_seq :: "string list \<Rightarrow> int \<Rightarrow> pack option \<Rightarrow> string list" where
  "search_seq today_half idx tomorrow_pack =
     py_slice_from today_half (idx + 1) @ py_slice_to today_half (idx + 1)
       @ (case tomorrow_pack of None \<Rightarrow> [] | Some (d, hc, tomorrow_half) \<Rightarrow> tomorrow_half)"

definition base_aligned :: "datetime \<Rightarrow> datetime" where
  "base_aligned now = now\<lparr>second := 0, microsecond := 0, minute := (if minute now < 30 then 0 else 30)\<rparr>"

text \<open>The format \<open>{n:02d}\<close>: decimal digits, zero-padded to width two, sign included.\<close>

definition digit_char :: "nat \<Rightarrow> char" where
  "digit_char d = ''0123456789'' ! d"

fun decimal :: "nat \<Rightarrow> string" where
  "decimal n = (if n < 10 then [digit_char n] else decimal (n div 10) @ [digit_char (n mod 10)])"

definition fmt_02d :: "int \<Rightarrow> string" where
  "fmt_02d i =
     (if i < 0 then ''-'' @ decimal (nat (- i))
      else if i < 10 then ''0'' @ decimal (nat i)
      else decimal (nat i))"

text \<open>
  The status record \<open>_build_payload\<close> returns, one field per dictionary key. The three
  \<open>tomorrow_*\<close> keys are present only when a second table was parsed. Dates are stored
  as \<open>date.isoformat()\<close>, a parameter \<open>isoformat\<close> of the builder.
\<close>

record payload =
  queue :: string
  date :: string
  now_status :: string
  now_halfhour_index :: int
  next_change_at :: "string option"
  today_24h_classes :: "string list"
  today_48half :: "string list"
  updated :: string
  source :: string
  source_last_modified :: "string option"
  next_on_at :: "instant option"
  next_off_at :: "instant option"
  tomorrow_date :: "string option"
  tomorrow_24h_classes :: "string list option"
  tomorrow_48half :: "string list option"

text \<open>
  \<open>_build_payload\<close>. It reads the clock once itself (\<open>now_local\<close>) and once in each of
  its two calls of \<open>find_next_at\<close> (\<open>now_on\<close>, \<open>now_off\<close>).
\<close>

definition build_payload ::
  "(date \<Rightarrow> string) \<Rightarrow> (datetime \<Rightarrow> instant) \<Rightarrow> datetime \<Rightarrow> datetime \<Rightarrow> datetime \<Rightarrow> string
     \<Rightarrow> pack \<Rightarrow> pack option \<Rightarrow> string \<Rightarrow> string \<Rightarrow> string option \<Rightarrow> error + payload" where
  "build_payload isoformat as_utc now_local now_on now_off self_queue
       today_pack tomorrow_pack updated_arg source_url source_last_modified_arg =
     (case today_pack of (today_date, hour_classes, halfhours) \<Rightarrow>
        (let idx = (if dt_date now_local \<noteq> today_date then 0
                    else int (hour now_local) * 2 + (if 30 \<le> minute now_local then 1 else 0))
         in case py_index halfhours idx of
              Inl e \<Rightarrow> Inl e
            | Inr cur \<Rightarrow>
           (case next_change_idx halfhours idx of
              Inl e \<Rightarrow> Inl e
            | Inr nci \<Rightarrow>
           (let next_change_hhmm =
                  (case nci of
                     None \<Rightarrow> None
                   | Some n \<Rightarrow>
                       Some (fmt_02d (n div 2) @ '':'' @ fmt_02d (if n mod 2 \<noteq> 0 then 30 else 0)))
            in case find_next_at as_utc now_on [''on''] today_date halfhours idx tomorrow_pack of
                 Inl e \<Rightarrow> Inl e
               | Inr next_on \<Rightarrow>
              (case find_next_at as_utc now_off [''off''] today_date halfhours idx tomorrow_pack of
                 Inl e \<Rightarrow> Inl e
               | Inr next_off \<Rightarrow>
                   Inr \<lparr>queue = self_queue,
                        date = isoformat today_date,
                        now_status = cur,
                        now_halfhour_index = idx,
                        next_change_at = next_change_hhmm,
                        today_24h_classes = hour_classes,
                        today_48half = halfhours,
                        updated = updated_arg,
                        source = source_url,
                        source_last_modified = source_last_modified_arg,
                        next_on_at = next_on,
                        next_off_at = next_off,
                        tomorrow_date = map_option (\<lambda>(d2, hc2, hh2). isoformat d2) tomorrow_pack,
                        tomorrow_24h_classes = map_option (\<lambda>(d2, hc2, hh2). hc2) tomorrow_pack,
                        tomorrow_48half = map_option (\<lambda>(d2, hc2, hh2). hh2) tomorrow_pack\<rparr>)))))"

text \<open>
  The index computation at the head of \<open>_build_payload\<close>, under a name of its own for
  the lemmas below.
\<close>

definition slot_index :: "datetime \<Rightarrow> date \<Rightarrow> int" where
  "slot_index now_local today_date =
     (if dt_date now_local \<noteq> today_date then 0
      else int (hour now_local) * 2 + (if 30 \<le> minute now_local then 1 else 0))"

section \<open>Precise scheduler (coordinator.py)\<close>

text \<open>
  The coordinator's fields that the scheduler reads and writes. \<open>unsub_precise\<close> holds
  the armed single-shot timer, represented by the instant it is set for;
  \<open>refresh_requested\<close> counts the calls of \<open>async_request_refresh\<close>.
\<close>

record coordinator =
  self_region :: string
  self_queue :: string
  unsub_precise :: "datetime option"
  today_pack_cached :: "pack option"
  tomorrow_pack_cached :: "pack option"
  self_data :: "payload option"
  refresh_requested :: nat

text \<open>\<open>s.split(":")\<close>\<close>

fun split_colon :: "string \<Rightarrow> string \<Rightarrow> string list" where
  "split_colon [] piece = [piece]"
| "split_colon (c # cs) piece =
     (if c = CHR '':'' then piece # split_colon cs [] else split_colon cs (piece @ [c]))"

text \<open>
  \<open>int(x)\<close> on an ASCII string: white space around the literal is dropped, one sign may
  lead it, and its decimal digits may be grouped by single underscores between digits.
  Anything else raises \<open>ValueError\<close>.
\<close>

definition is_space :: "char \<Rightarrow> bool" where
  "is_space c \<longleftrightarrow>
     c \<in> set [CHR 0x09, CHR 0x0A, CHR 0x0B, CHR 0x0C, CHR 0x0D,
               CHR 0x1C, CHR 0x1D, CHR 0x1E, CHR 0x1F, CHR 0x20]"

definition strip :: "string \<Rightarrow> string" where
  "strip x = rev (dropWhile is_space (rev (dropWhile is_space x)))"

definition digit_value :: "char \<Rightarrow> nat option" where
  "digit_value c = map_of (zip ''0123456789'' [0..<10]) c"

text \<open>
  The digits of a literal, most significant first; \<open>after_digit\<close> tells whether the
  character just read was a digit, which an underscore and the end of the literal need.
\<close>

fun digits_value :: "string \<Rightarrow> nat \<Rightarrow> bool \<Rightarrow> nat option" where
  "digits_value [] acc after_digit = (if after_digit then Some acc else None)"
| "digits_value (c # cs) acc after_digit =
     (if c = CHR ''_'' then (if after_digit then digits_value cs acc False else None)
      else case digit_value c of
             None \<Rightarrow> None
           | Some d \<Rightarrow> digits_value cs (acc * 10 + d) True)"

definition py_int :: "string \<Rightarrow> error + int" where
  "py_int x =
     (case strip x of
        [] \<Rightarrow> Inl ValueError
      | c # cs \<Rightarrow>
          if c = CHR ''-'' then
            (case digits_value cs 0 False of
               None \<Rightarrow> Inl ValueError
             | Some n \<Rightarrow> Inr (- int n))
          else if c = CHR ''+'' then
            (case digits_value cs 0 False of
               None \<Rightarrow> Inl ValueError
             | Some n \<Rightarrow> Inr (int n))
          else
            (case digits_value (c # cs) 0 False of
               None \<Rightarrow> Inl ValueError
             | Some n \<Rightarrow> Inr (int n)))"

text \<open>
  The body of the \<open>try\<close> block of \<open>_schedule_precise_refresh\<close>, up to the candidate fire
  instant. \<open>datetime.fromisoformat(_).date()\<close> is the parameter \<open>fromisoformat\<close>; the clock
  is read twice, \<open>now1\<close> for the \<open>replace\<close> and \<open>now2\<close> for the comparison.
\<close>

definition precise_candidate ::
  "(string \<Rightarrow> date option) \<Rightarrow> datetime \<Rightarrow> datetime \<Rightarrow> string \<Rightarrow> string \<Rightarrow> error + datetime" where
  "precise_candidate fromisoformat now1 now2 next_change_hhmm base_date_iso =
     (case fromisoformat base_date_iso of
        None \<Rightarrow> Inl ValueError
      | Some base_day \<Rightarrow>
          (case map py_int (split_colon next_change_hhmm []) of
             [Inr hh, Inr mm] \<Rightarrow>
               if \<not> (0 \<le> hh \<and> hh \<le> 23 \<and> 0 \<le> mm \<and> mm \<le> 59) then Inl ValueError
               else
                 (let candidate = now1\<lparr>dt_date := base_day, hour := nat hh, minute := nat mm,
                                        second := 0, microsecond := 0\<rparr>
                  in if dt_le candidate now2 then dt_add_days candidate 1 else Inr candidate)
           | _ \<Rightarrow> Inl ValueError))"

text \<open>
  \<open>_schedule_precise_refresh\<close>: the pending timer is cancelled first; an exception of
  the \<open>try\<close> block is logged and leaves no timer armed.
\<close>

definition schedule_precise_refresh ::
  "(string \<Rightarrow> date option) \<Rightarrow> datetime \<Rightarrow> datetime \<Rightarrow> coordinator \<Rightarrow> payload \<Rightarrow> coordinator" where
  "schedule_precise_refresh fromisoformat now1 now2 self data =
     (let self = self\<lparr>unsub_precise := None\<rparr>
      in case next_change_at data of
           None \<Rightarrow> self
         | Some next_change_hhmm \<Rightarrow>
             if next_change_hhmm = [] \<or> date data = [] then self
             else (case precise_candidate fromisoformat now1 now2 next_change_hhmm (date data) of
                     Inl e \<Rightarrow> self
                   | Inr candidate \<Rightarrow> self\<lparr>unsub_precise := Some candidate\<rparr>))"

text \<open>
  \<open>_precise_tick\<close>, the timer's callback. \<open>utcnow\<close> is the poll-time stamp
  \<open>dt_util.utcnow().replace(microsecond=0).isoformat()\<close> used when nothing was published
  before. An exception of \<open>_build_payload\<close> leaves the callback before anything is
  published or requested.
\<close>

definition precise_tick ::
  "(date \<Rightarrow> string) \<Rightarrow> (datetime \<Rightarrow> instant) \<Rightarrow> datetime \<Rightarrow> datetime \<Rightarrow> datetime \<Rightarrow> string
     \<Rightarrow> coordinator \<Rightarrow> error + coordinator" where
  "precise_tick isoformat as_utc now_local now_on now_off utcnow self =
     (case today_pack_cached self of
        None \<Rightarrow> Inr (self\<lparr>refresh_requested := Suc (refresh_requested self)\<rparr>)
      | Some today_pack \<Rightarrow>
          (case build_payload isoformat as_utc now_local now_on now_off (self_queue self)
                  today_pack (tomorrow_pack_cached self)
                  (case self_data self of Some d \<Rightarrow> updated d | None \<Rightarrow> utcnow)
                  (case self_data self of Some d \<Rightarrow> source d | None \<Rightarrow> [])
                  (case self_data self of Some d \<Rightarrow> source_last_modified d | None \<Rightarrow> None) of
             Inl e \<Rightarrow> Inl e
           | Inr p \<Rightarrow>
               Inr (self\<lparr>self_data := Some p,
                         refresh_requested := Suc (refresh_requested self)\<rparr>)))"

text \<open>
  A sample status record, as the poll of 1 January 2024, 05:00 publishes it for a day
  that is on until 06:00 and off afterwards, and a coordinator holding it.
\<close>

definition sample_payload :: payload where
  "sample_payload =
     \<lparr>queue = ''1.1'', date = ''2024-01-01'', now_status = ''on'', now_halfhour_index = 10,
      next_change_at = Some ''06:00'',
      today_24h_classes = replicate 6 ''on'' @ replicate 18 ''off'',
      today_48half = replicate 12 ''on'' @ replicate 36 ''off'',
      updated = ''2024-01-01T03:00:00+00:00'', source = ''https://svitlo.live/kyiv'',
      source_last_modified = None,
      next_on_at = Some 63839763000, next_off_at = Some 63839764800,
      tomorrow_date = None, tomorrow_24h_classes = None, tomorrow_48half = None\<rparr>"

definition sample_coordinator :: coordinator where
  "sample_coordinator =
     \<lparr>self_region = ''kyiv'', self_queue = ''1.1'', unsub_precise = None,
      today_pack_cached =
        Some (738886, replicate 6 ''on'' @ replicate 18 ''off'',
              replicate 12 ''on'' @ replicate 36 ''off''),
      tomorrow_pack_cached = None, self_data = Some sample_payload, refresh_requested = 0\<rparr>"

section \<open>Interval builder (calendar.py)\<close>

text \<open>
  A \<open>CalendarEvent\<close>: start and end are the absolute instants \<open>as_utc\<close> gives for the
  local date-times; the description prints the local times with \<open>%H:%M\<close>, joined by an
  en dash (three bytes in UTF-8).
\<close>

record calendar_event =
  ev_summary :: string
  ev_start :: instant
  ev_end :: instant
  ev_description :: string

definition strftime_HM :: "datetime \<Rightarrow> string" where
  "strftime_HM t = fmt_02d (int (hour t)) @ '':'' @ fmt_02d (int (minute t))"

definition en_dash :: string where
  "en_dash = [CHR 0xE2, CHR 0x80, CHR 0x93]"

text \<open>
  The host's constructor of a \<open>CalendarEvent\<close> validates what it is given: an event
  whose end lies before its start is refused with \<open>HomeAssistantError\<close>.
\<close>

definition CalendarEvent :: "string \<Rightarrow> instant \<Rightarrow> instant \<Rightarrow> string \<Rightarrow> error + calendar_event" where
  "CalendarEvent summary start_utc end_utc description =
     (if end_utc < start_utc then Inl HomeAssistantError
      else Inr \<lparr>ev_summary = summary, ev_start = start_utc, ev_end = end_utc,
                ev_description = description\<rparr>)"

text \<open>
  \<open>_make_event\<close>. \<open>replace(hour=h)\<close> raises \<open>ValueError\<close> unless \<open>h\<close> is in 0..23 (an end
  index below 48 always gives such an hour), \<open>day + timedelta(days=1)\<close> raises
  \<open>OverflowError\<close> past the last representable date, and the constructor may refuse
  the event.
\<close>

definition make_event ::
  "string \<Rightarrow> (datetime \<Rightarrow> instant) \<Rightarrow> date \<Rightarrow> nat \<Rightarrow> nat \<Rightarrow> error + calendar_event" where
  "make_event summary as_utc day start_idx end_idx =
     (let start_h = start_idx div 2;
          start_m = (if start_idx mod 2 \<noteq> 0 then 30 else 0);
          end_h = end_idx div 2;
          end_m = (if end_idx mod 2 \<noteq> 0 then 30 else 0)
      in if 23 < start_h then Inl ValueError
         else
           (let start_local = \<lparr>dt_date = day, hour = start_h, minute = start_m,
                               second = 0, microsecond = 0\<rparr>
            in case (if end_idx < 48
                     then Inr \<lparr>dt_date = day, hour = end_h, minute = end_m,
                               second = 0, microsecond = 0\<rparr>
                     else case date_add_days day 1 of
                            Inl e \<Rightarrow> Inl e
                          | Inr next_day \<Rightarrow>
                              Inr \<lparr>dt_date = next_day, hour = 0, minute = 0,
                                   second = 0, microsecond = 0\<rparr>) of
                 Inl e \<Rightarrow> Inl e
               | Inr end_local \<Rightarrow>
                   CalendarEvent summary (as_utc start_local) (as_utc end_local)
                     (''No electricity '' @ strftime_HM start_local
                        @ en_dash @ strftime_HM end_local)))"

text \<open>
  The loop of \<open>_build_day_events\<close> over \<open>range(1, 48)\<close>; its state is
  \<open>(current_state, start_idx, events)\<close>.
\<close>

fun day_events_loop ::
  "string \<Rightarrow> (datetime \<Rightarrow> instant) \<Rightarrow> date \<Rightarrow> string list \<Rightarrow> nat list
     \<Rightarrow> string \<times> nat \<times> calendar_event list
     \<Rightarrow> error + (string \<times> nat \<times> calendar_event list)" where
  "day_events_loop summary as_utc base_day halfhours [] st = Inr st"
| "day_events_loop summary as_utc base_day halfhours (i # rest) (current_state, start_idx, events) =
     (case py_index halfhours (int i) of
        Inl e \<Rightarrow> Inl e
      | Inr s \<Rightarrow>
          if s \<noteq> current_state then
            (if current_state = ''off'' then
               (case make_event summary as_utc base_day start_idx i of
                  Inl e \<Rightarrow> Inl e
                | Inr ev \<Rightarrow>
                    day_events_loop summary as_utc base_day halfhours rest (s, i, events @ [ev]))
             else day_events_loop summary as_utc base_day halfhours rest (s, i, events))
          else day_events_loop summary as_utc base_day halfhours rest
                 (current_state, start_idx, events))"

text \<open>
  \<open>_build_day_events\<close>. \<open>not date_str\<close> holds for \<open>None\<close> and for the empty string; the
  ISO date parser is the parameter \<open>fromisoformat\<close>.
\<close>

definition build_day_events ::
  "string \<Rightarrow> (datetime \<Rightarrow> instant) \<Rightarrow> (string \<Rightarrow> date option) \<Rightarrow> string option \<Rightarrow> string list
     \<Rightarrow> error + calendar_event list" where
  "build_day_events summary as_utc fromisoformat date_str halfhours =
     (case date_str of
        None \<Rightarrow> Inr []
      | Some ds \<Rightarrow>
          if ds = [] \<or> halfhours = [] \<or> length halfhours \<noteq> 48 then Inr []
          else
            (case fromisoformat ds of
               None \<Rightarrow> Inl ValueError
             | Some base_day \<Rightarrow>
                 (case py_index halfhours 0 of
                    Inl e \<Rightarrow> Inl e
                  | Inr s0 \<Rightarrow>
                      (case day_events_loop summary as_utc base_day halfhours [1..<48]
                              (s0, 0, []) of
                         Inl e \<Rightarrow> Inl e
                       | Inr (current_state, start_idx, events) \<Rightarrow>
                           if current_state = ''off'' then
                             (case make_event summary as_utc base_day start_idx 48 of
                                Inl e \<Rightarrow> Inl e
                              | Inr ev \<Rightarrow> Inr (events @ [ev]))
                           else Inr events))))"

text \<open>
  The local time at which slot \<open>i\<close> of a day begins; index 48 stands for midnight of the
  following day, where a run that lasts to the end of the day is closed.
\<close>

definition slot_start :: "date \<Rightarrow> nat \<Rightarrow> datetime" where
  "slot_start day i =
     (if i < 48
      then \<lparr>dt_date = day, hour = i div 2, minute = (if i mod 2 \<noteq> 0 then 30 else 0),
            second = 0, microsecond = 0\<rparr>
      else \<lparr>dt_date = day + 1, hour = 0, minute = 0, second = 0, microsecond = 0\<rparr>)"

text \<open>
  Re-expansion of a day's events onto the 48-slot grid, the inverse the round-trip law of
  the specification speaks of: a slot is off exactly when the instant at which it begins
  lies in the half-open interval of some event.
\<close>

definition covered :: "(datetime \<Rightarrow> instant) \<Rightarrow> date \<Rightarrow> calendar_event list \<Rightarrow> nat \<Rightarrow> bool" where
  "covered as_utc day events i \<longleftrightarrow>
     (\<exists>ev\<in>set events. ev_start ev \<le> as_utc (slot_start day i)
                      \<and> as_utc (slot_start day i) < ev_end ev)"

definition reexpand :: "(datetime \<Rightarrow> instant) \<Rightarrow> date \<Rightarrow> calendar_event list \<Rightarrow> string list" where
  "reexpand as_utc day events =
     map (\<lambda>i. if covered as_utc day events i then ''off'' else ''on'') [0..<48]"

text \<open>
  The invariant of the loop of \<open>_build_day_events\<close> after the indices below \<open>n\<close>: the
  current run starts at \<open>start_idx\<close> and holds \<open>current_state\<close> throughout, and the events
  emitted so far cover exactly the off slots before \<open>start_idx\<close>.
\<close>

definition loop_inv ::
  "(datetime \<Rightarrow> instant) \<Rightarrow> date \<Rightarrow> string list \<Rightarrow> nat
     \<Rightarrow> string \<times> nat \<times> calendar_event list \<Rightarrow> bool" where
  "loop_inv as_utc day halfhours n st \<longleftrightarrow>
     (case st of (current_state, start_idx, events) \<Rightarrow>
        start_idx < n \<and> current_state = halfhours ! (n - 1)
        \<and> (\<forall>i. start_idx \<le> i \<and> i < n \<longrightarrow> halfhours ! i = current_state)
        \<and> (\<forall>i<48. covered as_utc day events i \<longleftrightarrow> i < start_idx \<and> halfhours ! i = ''off''))"

section \<open>Properties of the schedule parser\<close>

lemma hour_classes_loop_map:
  "hour_classes_loop cells acc = acc @ map (\<lambda>c. first_class (td_class c)) cells"
  by (induction cells arbitrary: acc) simp_all

lemma halfhours_loop_concat:
  "halfhours_loop hcs acc = acc @ concat (map halfhours_from_hour_class hcs)"
  by (induction hcs arbitrary: acc) simp_all

lemma length_halfhours_from_hour_class: "length (halfhours_from_hour_class c) = 2"
  by simp

lemma length_concat_halfhours:
  "length (concat (map halfhours_from_hour_class hcs)) = 2 * length hcs"
  by (induction hcs) simp_all

lemma nth_concat_halfhours:
  "h < length hcs \<Longrightarrow>
     concat (map halfhours_from_hour_class hcs) ! (2 * h) = halfhours_from_hour_class (hcs ! h) ! 0
   \<and> concat (map halfhours_from_hour_class hcs) ! (2 * h + 1) = halfhours_from_hour_class (hcs ! h) ! 1"
proof (induction hcs arbitrary: h)
  case Nil
  then show ?case by simp
next
  case (Cons c cs)
  have "\<exists>a b. halfhours_from_hour_class c = [a, b]"
    by simp
  then obtain a b where ab: "halfhours_from_hour_class c = [a, b]"
    by blast
  show ?case
  proof (cases h)
    case 0
    then show ?thesis using ab by (simp del: halfhours_from_hour_class.simps)
  next
    case (Suc k)
    then have "k < length cs" using Cons.prems by simp
    from Cons.IH [OF this] show ?thesis
      using ab Suc by (simp del: halfhours_from_hour_class.simps)
  qed
qed

lemma first_class_unrecognised:
  "\<forall>c\<in>set cs. c \<notin> set CLASS_MAP \<Longrightarrow> first_class cs = ''on''"
  by (induction cs) simp_all

lemma cells_used:
  "(let cells = py_slice_from row 1 in
      if length cells \<noteq> 24 then py_slice_to cells 24 else cells) = take 24 (drop 1 row)"
  by (simp add: py_slice_from_def py_slice_to_def Let_def)

lemma parse_table_ok:
  assumes "2 \<le> length rows" "rows ! 0 \<noteq> []" "strptime (td_text (rows ! 0 ! 0)) = Some day"
  shows "parse_table strptime rows =
     Inr (day, map (\<lambda>c. first_class (td_class c)) (take 24 (drop 1 (rows ! 1))),
          concat (map halfhours_from_hour_class
            (map (\<lambda>c. first_class (td_class c)) (take 24 (drop 1 (rows ! 1))))))"
proof -
  have "py_index (rows ! 0) 0 = Inr (rows ! 0 ! 0)"
    using assms(2) by (simp add: py_index_def)
  then show ?thesis
    using assms(1,3) cells_used [of "rows ! 1"]
    by (simp add: parse_table_def Let_def hour_classes_loop_map halfhours_loop_concat)
qed

lemma parse_table_Inr:
  assumes "parse_table strptime rows = Inr (day, hcs, hh)"
  shows "2 \<le> length rows \<and> rows ! 0 \<noteq> [] \<and> strptime (td_text (rows ! 0 ! 0)) = Some day"
  using assms
  by (auto simp: parse_table_def py_index_def Let_def split: if_splits sum.splits option.splits)


text \<open>
  C2. For every sequence of 24 hour-class codes the half-hour grid built by the parser's
  loop has exactly 48 entries and is the concatenation, in order, of the per-hour
  expansions: slots \<open>2h\<close> and \<open>2h+1\<close> are the two entries of the expansion of hour \<open>h\<close>.
  The expansion maps on to [on, on], off to [off, off], f4 to [off, on], f5 to [on, off]
  and every other code to [on, on]; a cell without a recognised class is read as on; and
  the grid \<open>parse_table\<close> returns is this expansion of the hour classes it returns.
\<close>

theorem halfhours_expansion:
  assumes "length hour_classes = 24"
  shows "length (halfhours_loop hour_classes []) = 48
     \<and> halfhours_loop hour_classes [] = concat (map halfhours_from_hour_class hour_classes)
     \<and> (\<forall>h<24.
           halfhours_loop hour_classes [] ! (2 * h)
             = halfhours_from_hour_class (hour_classes ! h) ! 0
         \<and> halfhours_loop hour_classes [] ! (2 * h + 1)
             = halfhours_from_hour_class (hour_classes ! h) ! 1)
     \<and> halfhours_from_hour_class ''on'' = [''on'', ''on'']
     \<and> halfhours_from_hour_class ''off'' = [''off'', ''off'']
     \<and> halfhours_from_hour_class ''f4'' = [''off'', ''on'']
     \<and> halfhours_from_hour_class ''f5'' = [''on'', ''off'']
     \<and> (\<forall>c. c \<noteq> ''on'' \<and> c \<noteq> ''off'' \<and> c \<noteq> ''f4'' \<and> c \<noteq> ''f5''
           \<longrightarrow> halfhours_from_hour_class c = [''on'', ''on''])
     \<and> (\<forall>cs. (\<forall>c\<in>set cs. c \<notin> set CLASS_MAP)
           \<longrightarrow> first_class cs = ''on''
             \<and> halfhours_from_hour_class (first_class cs) = [''on'', ''on''])
     \<and> (\<forall>strptime rows day hcs hh.
           parse_table strptime rows = Inr (day, hcs, hh)
           \<longrightarrow> hh = concat (map halfhours_from_hour_class hcs))"
proof -
  have len: "length (halfhours_loop hour_classes []) = 48"
    using assms by (simp add: halfhours_loop_concat length_concat_halfhours)
  have cat: "halfhours_loop hour_classes [] = concat (map halfhours_from_hour_class hour_classes)"
    by (simp add: halfhours_loop_concat)
  have nth: "\<forall>h<24.
       halfhours_loop hour_classes [] ! (2 * h) = halfhours_from_hour_class (hour_classes ! h) ! 0
     \<and> halfhours_loop hour_classes [] ! (2 * h + 1)
         = halfhours_from_hour_class (hour_classes ! h) ! 1"
    using assms nth_concat_halfhours [of _ hour_classes] unfolding cat by simp
  have tbl: "halfhours_from_hour_class ''on'' = [''on'', ''on'']"
    "halfhours_from_hour_class ''off'' = [''off'', ''off'']"
    "halfhours_from_hour_class ''f4'' = [''off'', ''on'']"
    "halfhours_from_hour_class ''f5'' = [''on'', ''off'']"
    by simp_all
  have other: "\<forall>c. c \<noteq> ''on'' \<and> c \<noteq> ''off'' \<and> c \<noteq> ''f4'' \<and> c \<noteq> ''f5''
      \<longrightarrow> halfhours_from_hour_class c = [''on'', ''on'']"
    by simp
  have absent: "\<forall>cs. (\<forall>c\<in>set cs. c \<notin> set CLASS_MAP)
      \<longrightarrow> first_class cs = ''on'' \<and> halfhours_from_hour_class (first_class cs) = [''on'', ''on'']"
    using first_class_unrecognised tbl(1) by metis
  have parsed: "\<forall>strptime rows day hcs hh.
      parse_table strptime rows = Inr (day, hcs, hh)
      \<longrightarrow> hh = concat (map halfhours_from_hour_class hcs)"
  proof (intro allI impI)
    fix strptime rows day hcs hh
    assume p: "parse_table strptime rows = Inr (day, hcs, hh)"
    from parse_table_Inr [OF p] parse_table_ok [of rows strptime day] p
    show "hh = concat (map halfhours_from_hour_class hcs)" by simp
  qed
  from len cat nth tbl other absent parsed show ?thesis by blast
qed

theorem halfhours_expansion_witness:
  "length ([''off'', ''on'', ''on'', ''on'', ''on'', ''f4''] @ replicate 18 ''on'') = 24
   \<and> length (halfhours_loop ([''off'', ''on'', ''on'', ''on'', ''on'', ''f4''] @ replicate 18 ''on'') []) = 48
   \<and> halfhours_loop ([''off'', ''on'', ''on'', ''on'', ''on'', ''f4''] @ replicate 18 ''on'') [] ! 10 = ''off''
   \<and> halfhours_loop ([''off'', ''on'', ''on'', ''on'', ''on'', ''f4''] @ replicate 18 ''on'') [] ! 11 = ''on''"
proof -
  let ?hc = "[''off'', ''on'', ''on'', ''on'', ''on'', ''f4''] @ replicate 18 ''on''"
  have h: "length ?hc = 24" by simp
  note t = halfhours_expansion [OF h]
  have l: "length (halfhours_loop ?hc []) = 48" using t by blast
  have nth: "\<forall>h<24.
       halfhours_loop ?hc [] ! (2 * h) = halfhours_from_hour_class (?hc ! h) ! 0
     \<and> halfhours_loop ?hc [] ! (2 * h + 1) = halfhours_from_hour_class (?hc ! h) ! 1"
    using t by blast
  have five: "(5::nat) < 24" by simp
  have e: "?hc ! 5 = ''f4''" by simp
  from nth [rule_format, OF five]
  have "halfhours_loop ?hc [] ! 10 = ''off'' \<and> halfhours_loop ?hc [] ! 11 = ''on''"
    unfolding e by simp
  with h l show ?thesis by blast
qed

text \<open>
  What \<open>parse_table\<close> does with the cells of a row, whatever their number: once the table has two rows, a header cell and a date label that parses, parsing
  succeeds, the hour classes are read from the first \<open>min n 24\<close> of the \<open>n\<close> cells that
  follow the row label, and the grid has twice as many entries. With 24 cells or more
  exactly the first 24 are used, giving 24 hour classes and 48 half-hours.
\<close>

lemma parse_table_cell_count:
  assumes "2 \<le> length rows" and "rows ! 0 \<noteq> []"
    and "strptime (td_text (rows ! 0 ! 0)) = Some day"
  shows "\<exists>hcs hh. parse_table strptime rows = Inr (day, hcs, hh)
     \<and> hcs = map (\<lambda>c. first_class (td_class c)) (take 24 (drop 1 (rows ! 1)))
     \<and> length hcs = min 24 (length (rows ! 1) - 1)
     \<and> length hh = 2 * length hcs
     \<and> (24 \<le> length (rows ! 1) - 1 \<longrightarrow> length hcs = 24 \<and> length hh = 48)"
proof -
  let ?hcs = "map (\<lambda>c. first_class (td_class c)) (take 24 (drop 1 (rows ! 1)))"
  let ?hh = "concat (map halfhours_from_hour_class ?hcs)"
  have p: "parse_table strptime rows = Inr (day, ?hcs, ?hh)"
    using parse_table_ok [of rows strptime day] assms by blast
  have l1: "length ?hcs = min 24 (length (rows ! 1) - 1)"
    by simp
  have l2: "length ?hh = 2 * length ?hcs"
    by (rule length_concat_halfhours)
  have l3: "24 \<le> length (rows ! 1) - 1 \<longrightarrow> length ?hcs = 24 \<and> length ?hh = 48"
  proof
    assume "24 \<le> length (rows ! 1) - 1"
    then have a: "length ?hcs = 24" by simp
    have "length ?hh = 48" by (simp only: l2 a)
    with a show "length ?hcs = 24 \<and> length ?hh = 48" by blast
  qed
  from p l1 l2 l3 show ?thesis by blast
qed

lemma parse_table_cell_count_example:
  "2 \<le> length [[\<lparr>td_text = ''01.01.2024'', td_class = []\<rparr>],
                 replicate 27 \<lparr>td_text = [], td_class = [''off'']\<rparr>]
   \<and> strptime_sample ''01.01.2024'' = Some 738886
   \<and> parse_table strptime_sample
        [[\<lparr>td_text = ''01.01.2024'', td_class = []\<rparr>],
         replicate 27 \<lparr>td_text = [], td_class = [''off'']\<rparr>]
       = Inr (738886, replicate 24 ''off'', replicate 48 ''off'')"
proof -
  let ?rows = "[[\<lparr>td_text = ''01.01.2024'', td_class = []\<rparr>],
                replicate 27 \<lparr>td_text = [], td_class = [''off'']\<rparr>]"
  have h1: "2 \<le> length ?rows" by simp
  have h2: "?rows ! 0 \<noteq> []" by simp
  have h3: "strptime_sample (td_text (?rows ! 0 ! 0)) = Some 738886"
    by (simp add: strptime_sample_def)
  have v: "parse_table strptime_sample ?rows
      = Inr (738886, replicate 24 ''off'', replicate 48 ''off'')"
    by code_simp
  from parse_table_cell_count [of ?rows strptime_sample 738886, OF h1 h2 h3] v
  have "length (replicate 24 ''off'') = min 24 (length (?rows ! 1) - 1)" by simp
  with h1 h3 v show ?thesis by simp
qed

text \<open>
  C1. The specification has a cell row of fewer than 24 cells rejected, so that no day
  with fewer than 24 hour classes or 48 half-hours exists, and the comments of the code
  say the same of a parsed day (24 and 48 values; the slice a safeguard for fewer or more
  cells). The code does not do it: at a row with three cells after its label the slice
  changes nothing, \<open>parse_table\<close> returns a day of three hour classes and six half-hours,
  and at 10:15 of that day \<open>_build_payload\<close> reads slot 20 of the six and raises
  \<open>IndexError\<close>.
\<close>

theorem parse_table_short_row_accepted:
  "parse_table strptime_sample
     [[\<lparr>td_text = ''01.01.2024'', td_class = []\<rparr>],
      [\<lparr>td_text = ''1.1'', td_class = []\<rparr>,
       \<lparr>td_text = [], td_class = [''off'']\<rparr>,
       \<lparr>td_text = [], td_class = [''x'', ''f4'']\<rparr>,
       \<lparr>td_text = [], td_class = []\<rparr>]]
     = Inr (738886, [''off'', ''f4'', ''on''], [''off'', ''off'', ''off'', ''on'', ''on'', ''on''])
   \<and> build_payload isoformat_sample as_utc_sample
       \<lparr>dt_date = 738886, hour = 10, minute = 15, second = 0, microsecond = 0\<rparr>
       \<lparr>dt_date = 738886, hour = 10, minute = 15, second = 0, microsecond = 0\<rparr>
       \<lparr>dt_date = 738886, hour = 10, minute = 15, second = 0, microsecond = 0\<rparr>
       ''1.1''
       (738886, [''off'', ''f4'', ''on''], [''off'', ''off'', ''off'', ''on'', ''on'', ''on''])
       None ''2024-01-01T08:15:00+00:00'' ''https://svitlo.live/kyiv'' None
     = Inl IndexError"
  by code_simp

section \<open>Properties of the transition calculator\<close>

lemma py_index_mod:
  "0 < length xs \<Longrightarrow> py_index xs (k mod int (length xs)) = Inr (xs ! nat (k mod int (length xs)))"
  by (simp add: py_index_def)

lemma next_change_scan_find:
  assumes "0 < length series"
  shows "next_change_scan series cur idx steps =
     Inr (map_option (\<lambda>st. (idx + st) mod int (length series))
       (find (\<lambda>st. series ! nat ((idx + st) mod int (length series)) \<noteq> cur) steps))"
  using assms by (induction steps) (simp_all add: py_index_mod Let_def)

lemma residues_48:
  assumes "0 \<le> idx" "idx < 48" "i < (48::nat)"
  shows "\<exists>k. 1 \<le> k \<and> k \<le> (48::nat) \<and> nat ((idx + int k) mod 48) = i"
proof -
  define k where "k = (if int i \<le> idx then nat (int i + 48 - idx) else nat (int i - idx))"
  have "1 \<le> k \<and> k \<le> 48 \<and> nat ((idx + int k) mod 48) = i"
    using assms unfolding k_def by (auto simp: nat_eq_iff)
  then show ?thesis by blast
qed

lemma next_change_idx_48:
  assumes len: "length series = 48" and idx: "0 \<le> idx" "idx < 48"
  shows "next_change_idx series idx =
     Inr (map_option (\<lambda>st. (idx + st) mod 48)
       (find (\<lambda>st. series ! nat ((idx + st) mod 48) \<noteq> series ! nat idx) (py_range 1 49)))"
  using assms by (simp add: next_change_idx_def py_index_def next_change_scan_find)

lemma py_range_nth: "i < b - a \<Longrightarrow> py_range a b ! i = int (a + i)"
  by (simp add: py_range_def)

lemma length_py_range: "length (py_range a b) = b - a"
  by (simp add: py_range_def)

lemma set_py_range: "set (py_range a b) = int ` {a..<b}"
  by (simp add: py_range_def)

text \<open>
  C3. On a 48-slot grid and an index in 0..47, \<open>next_change_idx\<close> never raises; it
  returns the first index, in the circular order \<open>(idx+1) mod 48, (idx+2) mod 48, \<dots>\<close> of
  at most 48 steps, whose state differs from the state at \<open>idx\<close>, and it returns
  \<open>None\<close> exactly when all 48 slots hold the same state.
\<close>

theorem next_change_idx_first_differing:
  assumes len: "length series = 48" and idx: "0 \<le> idx" "idx < 48"
  shows "(next_change_idx series idx = Inr None \<longleftrightarrow>
            (\<forall>i<48. series ! i = series ! nat idx))
       \<and> (\<forall>j. next_change_idx series idx = Inr (Some j) \<longleftrightarrow>
            (\<exists>k. 1 \<le> k \<and> k \<le> (48::nat) \<and> j = (idx + int k) mod 48
               \<and> series ! nat j \<noteq> series ! nat idx
               \<and> (\<forall>k'. 1 \<le> k' \<and> k' < k \<longrightarrow>
                     series ! nat ((idx + int k') mod 48) = series ! nat idx)))
       \<and> (\<exists>r. next_change_idx series idx = Inr r)"
proof (intro conjI allI)
  let ?P = "\<lambda>st. series ! nat ((idx + st) mod 48) \<noteq> series ! nat idx"
  note eq = next_change_idx_48 [OF len idx]
  show "next_change_idx series idx = Inr None \<longleftrightarrow> (\<forall>i<48. series ! i = series ! nat idx)"
  proof
    assume "next_change_idx series idx = Inr None"
    then have none: "\<forall>k\<in>{1..<49::nat}. \<not> ?P (int k)"
      using eq by (simp add: find_None_iff set_py_range)
    show "\<forall>i<48. series ! i = series ! nat idx"
    proof (intro allI impI)
      fix i :: nat assume "i < 48"
      then obtain k where k: "1 \<le> k" "k \<le> 48" "nat ((idx + int k) mod 48) = i"
        using residues_48 [OF idx] by blast
      then show "series ! i = series ! nat idx" using none by auto
    qed
  next
    assume all: "\<forall>i<48. series ! i = series ! nat idx"
    have "\<not> ?P st" for st
    proof -
      have "nat ((idx + st) mod 48) < 48" by simp
      then show ?thesis using all by blast
    qed
    then show "next_change_idx series idx = Inr None"
      using eq by (simp add: find_None_iff)
  qed
next
  fix j
  let ?P = "\<lambda>st. series ! nat ((idx + st) mod 48) \<noteq> series ! nat idx"
  note eq = next_change_idx_48 [OF len idx]
  show "next_change_idx series idx = Inr (Some j) \<longleftrightarrow>
            (\<exists>k. 1 \<le> k \<and> k \<le> (48::nat) \<and> j = (idx + int k) mod 48
               \<and> series ! nat j \<noteq> series ! nat idx
               \<and> (\<forall>k'. 1 \<le> k' \<and> k' < k \<longrightarrow>
                     series ! nat ((idx + int k') mod 48) = series ! nat idx))"
    (is "?L \<longleftrightarrow> ?R")
  proof
    assume ?L
    then obtain st where st: "find ?P (py_range 1 49) = Some st" "j = (idx + st) mod 48"
      using eq by auto
    then obtain i where i: "i < 48" "?P (py_range 1 49 ! i)" "st = py_range 1 49 ! i"
      "\<forall>m<i. \<not> ?P (py_range 1 49 ! m)"
      unfolding find_Some_iff by (auto simp: length_py_range)
    have sti: "st = int (1 + i)" using i(1,3) by (simp add: py_range_nth)
    have prev: "series ! nat ((idx + int k') mod 48) = series ! nat idx"
      if "1 \<le> k'" "k' < 1 + i" for k'
    proof -
      have "k' - 1 < i" using that by simp
      then have "\<not> ?P (py_range 1 49 ! (k' - 1))" using i(4) by blast
      moreover have "py_range 1 49 ! (k' - 1) = int k'"
        using that i(1) by (simp add: py_range_nth)
      ultimately show ?thesis by simp
    qed
    have Pk: "series ! nat j \<noteq> series ! nat idx"
      using i(2) i(3) st(2) by simp
    show ?R
      apply (rule exI [of _ "1 + i"])
      using i(1) st(2) sti prev Pk by simp
  next
    assume ?R
    then obtain k where k: "1 \<le> k" "k \<le> 48" "j = (idx + int k) mod 48"
      "series ! nat j \<noteq> series ! nat idx"
      "\<forall>k'. 1 \<le> k' \<and> k' < k \<longrightarrow> series ! nat ((idx + int k') mod 48) = series ! nat idx"
      by blast
    have before: "\<not> ?P (py_range 1 49 ! m)" if "m < k - 1" for m
    proof -
      have "py_range 1 49 ! m = int (Suc m)"
        using that k(2) by (simp add: py_range_nth)
      moreover have "series ! nat ((idx + int (Suc m)) mod 48) = series ! nat idx"
        using k(5) that by (metis Suc_le_eq less_diff_conv One_nat_def Suc_eq_plus1 zero_less_Suc)
      ultimately show ?thesis by simp
    qed
    have at: "py_range 1 49 ! (k - 1) = int k"
      using k(1,2) by (simp add: py_range_nth)
    have "find ?P (py_range 1 49) = Some (int k)"
      unfolding find_Some_iff
      apply (rule exI [of _ "k - 1"])
      using k(1,2,3,4) at before by (simp add: length_py_range)
    then show ?L using eq k(3) by simp
  qed
next
  show "\<exists>r. next_change_idx series idx = Inr r"
    using next_change_idx_48 [OF len idx] by blast
qed

theorem next_change_idx_first_differing_witness:
  "length (replicate 20 ''on'' @ replicate 28 ''off'') = 48 \<and> (0::int) \<le> 3 \<and> (3::int) < 48
   \<and> next_change_idx (replicate 20 ''on'' @ replicate 28 ''off'') 3 = Inr (Some 20)
   \<and> (\<exists>k. 1 \<le> k \<and> k \<le> (48::nat) \<and> (20::int) = (3 + int k) mod 48
         \<and> (replicate 20 ''on'' @ replicate 28 ''off'') ! nat 20
             \<noteq> (replicate 20 ''on'' @ replicate 28 ''off'') ! nat 3
         \<and> (\<forall>k'. 1 \<le> k' \<and> k' < k \<longrightarrow>
               (replicate 20 ''on'' @ replicate 28 ''off'') ! nat ((3 + int k') mod 48)
                 = (replicate 20 ''on'' @ replicate 28 ''off'') ! nat 3))"
proof -
  let ?S = "replicate 20 ''on'' @ replicate 28 ''off''"
  have h1: "length ?S = 48" by simp
  have h2: "(0::int) \<le> 3" and h3: "(3::int) < 48" by simp_all
  have v: "next_change_idx ?S 3 = Inr (Some 20)" by code_simp
  from next_change_idx_first_differing [OF h1 h2 h3] v
  have "\<exists>k. 1 \<le> k \<and> k \<le> (48::nat) \<and> (20::int) = (3 + int k) mod 48
         \<and> ?S ! nat 20 \<noteq> ?S ! nat 3
         \<and> (\<forall>k'. 1 \<le> k' \<and> k' < k \<longrightarrow> ?S ! nat ((3 + int k') mod 48) = ?S ! nat 3)"
    by blast
  with h1 h2 h3 v show ?thesis by blast
qed

section \<open>Properties of the next-occurrence search\<close>

lemma first_pos_None: "first_pos ts xs i = None \<longleftrightarrow> (\<forall>s\<in>set xs. s \<notin> set ts)"
  by (induction xs arbitrary: i) simp_all

lemma first_pos_Some:
  "p < length xs \<Longrightarrow> xs ! p \<in> set ts \<Longrightarrow> \<forall>q<p. xs ! q \<notin> set ts
     \<Longrightarrow> first_pos ts xs i = Some (i + p)"
proof (induction xs arbitrary: i p)
  case Nil
  then show ?case by simp
next
  case (Cons x xs)
  show ?case
  proof (cases p)
    case 0
    then show ?thesis using Cons.prems by simp
  next
    case (Suc k)
    have x: "x \<notin> set ts" using Cons.prems(3) Suc by auto
    have "first_pos ts xs (Suc i) = Some (Suc i + k)"
    proof (rule Cons.IH)
      show "k < length xs" using Cons.prems(1) Suc by simp
      show "xs ! k \<in> set ts" using Cons.prems(2) Suc by simp
      show "\<forall>q<k. xs ! q \<notin> set ts" using Cons.prems(3) Suc by auto
    qed
    then show ?thesis using x Suc by simp
  qed
qed

lemma first_pos_SomeD:
  "first_pos ts xs i = Some r \<Longrightarrow>
     \<exists>p<length xs. r = i + p \<and> xs ! p \<in> set ts \<and> (\<forall>q<p. xs ! q \<notin> set ts)"
proof (induction xs arbitrary: i)
  case Nil
  then show ?case by simp
next
  case (Cons x xs)
  show ?case
  proof (cases "x \<in> set ts")
    case True
    then have "r = i" using Cons.prems by simp
    then show ?thesis using True by auto
  next
    case False
    then have "first_pos ts xs (Suc i) = Some r" using Cons.prems by simp
    from Cons.IH [OF this] obtain p where p: "p < length xs" "r = Suc i + p"
      "xs ! p \<in> set ts" "\<forall>q<p. xs ! q \<notin> set ts" by blast
    have "\<forall>q<Suc p. (x # xs) ! q \<notin> set ts"
      using False p(4) by (auto simp: less_Suc_eq_0_disj)
    then show ?thesis
      using p by (intro exI [of _ "Suc p"]) simp
  qed
qed

lemma find_next_at_unfold:
  "find_next_at as_utc now ts base_date today_half idx tomorrow_pack =
     (case first_pos ts (search_seq today_half idx tomorrow_pack) 0 of
        None \<Rightarrow> Inr None
      | Some pos \<Rightarrow>
          (case dt_add_minutes (base_aligned now) ((pos + 1) * 30) of
             Inl e \<Rightarrow> Inl e
           | Inr next_local \<Rightarrow> Inr (Some (as_utc next_local))))"
  by (cases tomorrow_pack)
     (auto simp: find_next_at_def search_seq_def base_aligned_def Let_def split: option.splits)

lemma search_seq_today:
  assumes "0 \<le> idx"
  shows "search_seq today_half idx tomorrow_pack =
     drop (nat idx + 1) today_half @ take (nat idx + 1) today_half
       @ (case tomorrow_pack of None \<Rightarrow> [] | Some (d, hc, tomorrow_half) \<Rightarrow> tomorrow_half)"
  using assms by (simp add: search_seq_def py_slice_from_def py_slice_to_def nat_add_distrib)

lemma set_search_seq:
  "set (search_seq today_half idx tomorrow_pack) =
     set today_half \<union> (case tomorrow_pack of None \<Rightarrow> {} | Some (d, hc, tomorrow_half) \<Rightarrow> set tomorrow_half)"
proof -
  have "set (drop n today_half) \<union> set (take n today_half) = set today_half" for n
    by (metis append_take_drop_id set_append sup_commute)
  then show ?thesis
    by (auto simp: search_seq_def py_slice_from_def py_slice_to_def split: option.splits)
qed

lemma rotate_drop_take_48:
  assumes "length xs = 48" "n < 48"
  shows "drop (n + 1) xs @ take (n + 1) xs = rotate (n + 1) xs"
proof (cases "n = 47")
  case True
  then show ?thesis using assms by (simp add: rotate_drop_take)
next
  case False
  then have "(n + 1) mod length xs = n + 1" using assms by simp
  then show ?thesis by (simp add: rotate_drop_take)
qed

lemma half_hour_mod:
  fixes h b k :: nat
  assumes "b = 0 \<or> b = 30"
  shows "(h * 60 + b + k * 30) mod 60 = 0 \<or> (h * 60 + b + k * 30) mod 60 = 30"
proof -
  have red: "(h * 60 + b + k * 30) mod 60 = (b + k * 30) mod 60"
    by (simp add: add.assoc)
  have "(b + k * 30) mod 60 = 0 \<or> (b + k * 30) mod 60 = 30"
  proof (cases "even k")
    case True
    then obtain j where "k = 2 * j" by (auto elim: evenE)
    then have "b + k * 30 = b + j * 60" by simp
    then have "(b + k * 30) mod 60 = b mod 60" by simp
    then show ?thesis using assms by auto
  next
    case False
    then obtain j where "k = 2 * j + 1" by (auto elim: oddE)
    then have "b + k * 30 = (b + 30) + j * 60" by simp
    then have "(b + k * 30) mod 60 = (b + 30) mod 60" by (simp only: mod_mult_self1)
    then show ?thesis using assms by auto
  qed
  then show ?thesis unfolding red .
qed

lemma dt_add_minutes_aligned:
  assumes "dt_add_minutes (base_aligned now) (k * 30) = Inr t"
  shows "(minute t = 0 \<or> minute t = 30) \<and> second t = 0 \<and> microsecond t = 0"
proof -
  define bm :: nat where "bm = (if minute now < 30 then 0 else 30)"
  define total where "total = hour now * 60 + bm + k * 30"
  have bm: "bm = 0 \<or> bm = 30" by (simp add: bm_def)
  have t: "t = (base_aligned now)\<lparr>dt_date := dt_date now + int (total div 1440),
       hour := total mod 1440 div 60, minute := total mod 1440 mod 60\<rparr>"
    using assms
    by (auto simp: dt_add_minutes_def base_aligned_def Let_def total_def bm_def split: if_splits)
  have "total mod 1440 mod 60 = total mod 60"
    by (simp add: mod_mod_cancel)
  moreover have "total mod 60 = 0 \<or> total mod 60 = 30"
    unfolding total_def using half_hour_mod [OF bm] .
  ultimately have "minute t = 0 \<or> minute t = 30"
    unfolding t by simp
  moreover have "second t = 0 \<and> microsecond t = 0"
    unfolding t by (simp add: base_aligned_def)
  ultimately show ?thesis by blast
qed

lemma dt_add_minutes_linear:
  assumes "dt_add_minutes b m = Inr t"
  shows "dt_date t * 1440 + int (hour t * 60 + minute t)
       = dt_date b * 1440 + int (hour b * 60 + minute b + m)"
proof -
  define total where "total = hour b * 60 + minute b + m"
  define q where "q = total div 1440"
  define r where "r = total mod 1440 div 60"
  define s where "s = total mod 1440 mod 60"
  have t: "t = b\<lparr>dt_date := dt_date b + int q, hour := r, minute := s\<rparr>"
    using assms
    by (auto simp: dt_add_minutes_def Let_def total_def q_def r_def s_def split: if_splits)
  have "q * 1440 + (r * 60 + s) = total"
    unfolding q_def r_def s_def by simp
  then have "int q * 1440 + int (r * 60 + s) = int total"
    by (metis of_nat_add of_nat_mult of_nat_numeral)
  then show ?thesis
    unfolding t total_def [symmetric] by (simp add: algebra_simps)
qed

lemma dt_add_minutes_ok:
  assumes "1 \<le> dt_date b" "hour b < 24" "minute b < 60" "m \<le> 1440 * d" "dt_date b + int d \<le> MAXORDINAL"
  shows "\<exists>t. dt_add_minutes b m = Inr t"
proof -
  define total where "total = hour b * 60 + minute b + m"
  have "total < 1440 * (d + 1)" using assms(2,3,4) unfolding total_def by simp
  then have "total div 1440 < d + 1"
    by (simp add: less_mult_imp_div_less mult.commute)
  then have "int (total div 1440) \<le> int d" by simp
  then have "1 \<le> dt_date b + int (total div 1440) \<and> dt_date b + int (total div 1440) \<le> MAXORDINAL"
    using assms(1,5) by linarith
  then show ?thesis
    unfolding dt_add_minutes_def Let_def total_def [symmetric] by simp
qed

lemma valid_base_aligned:
  "valid_datetime now \<Longrightarrow>
     1 \<le> dt_date (base_aligned now) \<and> hour (base_aligned now) < 24 \<and> minute (base_aligned now) < 60
     \<and> dt_date (base_aligned now) = dt_date now \<and> hour (base_aligned now) = hour now
     \<and> minute (base_aligned now) = (if minute now < 30 then 0 else 30)"
  by (simp add: valid_datetime_def base_aligned_def)

lemma length_search_seq:
  "length (search_seq today_half idx tomorrow_pack) =
     length today_half + (case tomorrow_pack of None \<Rightarrow> 0 | Some (d, hc, hh) \<Rightarrow> length hh)"
proof -
  have "length (drop n today_half) + length (take n today_half) = length today_half" for n
    by simp
  then show ?thesis
    unfolding search_seq_def py_slice_from_def py_slice_to_def
    by (simp split: option.splits)
qed

text \<open>
  C4. On a 48-slot today grid and an index in 0..47, the sequence \<open>find_next_at\<close>
  searches is \<open>today_half[idx+1..47]\<close>, then \<open>today_half[0..idx]\<close> (together a rotation
  of today's grid, so each slot occurs once), then tomorrow's grid when there is one. If
  the first slot of that sequence in the target states is at position \<open>p\<close>, the function
  returns the instant of the local time \<open>t\<close> obtained from the clock reading by cutting
  it back to its half-hour (minute 0 or 30, seconds and microseconds 0) and adding
  \<open>(p+1) * 30\<close> minutes; \<open>t\<close> has minute 0 or 30 and no seconds or microseconds.
\<close>

theorem find_next_at_aligned:
  assumes len: "length today_half = 48" and idx: "0 \<le> idx" "idx < 48"
    and tomorrow: "\<forall>d hc hh. tomorrow_pack = Some (d, hc, hh) \<longrightarrow> length hh = 48"
    and now: "valid_datetime now" "dt_date now + 2 \<le> MAXORDINAL"
    and p: "p < length (search_seq today_half idx tomorrow_pack)"
      "search_seq today_half idx tomorrow_pack ! p \<in> set target_states"
      "\<forall>q<p. search_seq today_half idx tomorrow_pack ! q \<notin> set target_states"
  shows "search_seq today_half idx tomorrow_pack =
           drop (nat idx + 1) today_half @ take (nat idx + 1) today_half
             @ (case tomorrow_pack of None \<Rightarrow> [] | Some (d, hc, tomorrow_half) \<Rightarrow> tomorrow_half)
     \<and> drop (nat idx + 1) today_half @ take (nat idx + 1) today_half
           = rotate (nat idx + 1) today_half
     \<and> (\<exists>t. dt_add_minutes (base_aligned now) ((p + 1) * 30) = Inr t
          \<and> find_next_at as_utc now target_states base_date today_half idx tomorrow_pack
              = Inr (Some (as_utc t))
          \<and> dt_date t * 1440 + int (hour t * 60 + minute t)
              = dt_date now * 1440
                + int (hour now * 60 + (if minute now < 30 then 0 else 30) + (p + 1) * 30)
          \<and> (minute t = 0 \<or> minute t = 30) \<and> second t = 0 \<and> microsecond t = 0)"
proof -
  let ?seq = "search_seq today_half idx tomorrow_pack"
  have s1: "?seq = drop (nat idx + 1) today_half @ take (nat idx + 1) today_half
      @ (case tomorrow_pack of None \<Rightarrow> [] | Some (d, hc, tomorrow_half) \<Rightarrow> tomorrow_half)"
    using idx(1) by (rule search_seq_today)
  have s2: "drop (nat idx + 1) today_half @ take (nat idx + 1) today_half
      = rotate (nat idx + 1) today_half"
    using len idx by (intro rotate_drop_take_48) simp_all
  have "length ?seq \<le> 96"
    using len tomorrow by (cases tomorrow_pack) (auto simp: length_search_seq)
  then have m: "(p + 1) * 30 \<le> 1440 * 2" using p(1) by simp
  note vb = valid_base_aligned [OF now(1)]
  have "\<exists>t. dt_add_minutes (base_aligned now) ((p + 1) * 30) = Inr t"
    using vb now(2) m by (intro dt_add_minutes_ok [where d = 2]) simp_all
  then obtain t where t: "dt_add_minutes (base_aligned now) ((p + 1) * 30) = Inr t"
    by blast
  have fp: "first_pos target_states ?seq 0 = Some p"
    using first_pos_Some [OF p, of 0] by simp
  have r: "find_next_at as_utc now target_states base_date today_half idx tomorrow_pack
      = Inr (Some (as_utc t))"
    unfolding find_next_at_unfold fp using t by simp
  have lin: "dt_date t * 1440 + int (hour t * 60 + minute t)
      = dt_date now * 1440
        + int (hour now * 60 + (if minute now < 30 then 0 else 30) + (p + 1) * 30)"
    using dt_add_minutes_linear [OF t] vb by simp
  note al = dt_add_minutes_aligned [OF t]
  from s1 s2 t r lin al show ?thesis by blast
qed

theorem find_next_at_aligned_witness:
  "length (replicate 12 ''off'' @ replicate 36 ''on'') = 48
   \<and> valid_datetime \<lparr>dt_date = 738886, hour = 10, minute = 15, second = 42, microsecond = 7\<rparr>
   \<and> search_seq (replicate 12 ''off'' @ replicate 36 ''on'') 20 None ! 27 = ''off''
   \<and> find_next_at as_utc_sample
        \<lparr>dt_date = 738886, hour = 10, minute = 15, second = 42, microsecond = 7\<rparr>
        [''off''] 738886 (replicate 12 ''off'' @ replicate 36 ''on'') 20 None
      = Inr (Some (as_utc_sample
          \<lparr>dt_date = 738887, hour = 0, minute = 0, second = 0, microsecond = 0\<rparr>))"
proof -
  let ?today = "replicate 12 ''off'' @ replicate 36 ''on''"
  let ?now = "\<lparr>dt_date = 738886, hour = 10, minute = 15, second = 42, microsecond = 7\<rparr>"
  have seq: "search_seq ?today 20 None = replicate 27 ''on'' @ replicate 12 ''off'' @ replicate 9 ''on''"
    by code_simp
  have h1: "length ?today = 48" by simp
  have h2: "(0::int) \<le> 20" and h3: "(20::int) < 48" by simp_all
  have h4: "\<forall>d hc hh. (None :: pack option) = Some (d, hc, hh) \<longrightarrow> length hh = 48" by simp
  have h5: "valid_datetime ?now" by (simp add: valid_datetime_def MAXORDINAL_def)
  have h6: "dt_date ?now + 2 \<le> MAXORDINAL" by (simp add: MAXORDINAL_def)
  have h7: "27 < length (search_seq ?today 20 None)" unfolding seq by simp
  have h8: "search_seq ?today 20 None ! 27 \<in> set [''off'']"
    unfolding seq by (simp add: nth_append)
  have h9: "\<forall>q<27. search_seq ?today 20 None ! q \<notin> set [''off'']"
    unfolding seq by (simp add: nth_append)
  have add: "dt_add_minutes (base_aligned ?now) ((27 + 1) * 30)
      = Inr \<lparr>dt_date = 738887, hour = 0, minute = 0, second = 0, microsecond = 0\<rparr>"
    by code_simp
  from find_next_at_aligned [OF h1 h2 h3 h4 h5 h6 h7 h8 h9, of as_utc_sample 738886]
  have r: "find_next_at as_utc_sample ?now [''off''] 738886 ?today 20 None
      = Inr (Some (as_utc_sample
          \<lparr>dt_date = 738887, hour = 0, minute = 0, second = 0, microsecond = 0\<rparr>))"
    unfolding add by blast
  from h8 have h8': "search_seq ?today 20 None ! 27 = ''off''" by simp
  from h1 h5 h8' r show ?thesis by blast
qed

text \<open>
  C9. \<open>find_next_at\<close> returns \<open>None\<close> exactly when no slot of today's grid and no slot of
  tomorrow's grid (when there is one) is in the target states. With no tomorrow schedule
  and a 48-slot today grid holding a target state in any slot, passed ones included, it
  returns an instant \<open>k\<close> half-hours after the current half-hour's start, for some
  \<open>k\<close> between 1 and 48, that is at most 24 hours ahead.
\<close>

theorem find_next_at_absent_iff:
  "(find_next_at as_utc now target_states base_date today_half idx tomorrow_pack = Inr None
      \<longleftrightarrow> (\<forall>s \<in> set today_half
              \<union> (case tomorrow_pack of None \<Rightarrow> {} | Some (d, hc, tomorrow_half) \<Rightarrow> set tomorrow_half).
            s \<notin> set target_states))
   \<and> (length today_half = 48 \<and> valid_datetime now \<and> dt_date now + 1 \<le> MAXORDINAL
        \<and> (\<exists>s\<in>set today_half. s \<in> set target_states)
      \<longrightarrow> (\<exists>k t. 1 \<le> k \<and> k \<le> 48
            \<and> dt_add_minutes (base_aligned now) (k * 30) = Inr t
            \<and> find_next_at as_utc now target_states base_date today_half idx None
                = Inr (Some (as_utc t))))"
proof (intro conjI impI)
  let ?seq = "search_seq today_half idx tomorrow_pack"
  show "find_next_at as_utc now target_states base_date today_half idx tomorrow_pack = Inr None
      \<longleftrightarrow> (\<forall>s \<in> set today_half
              \<union> (case tomorrow_pack of None \<Rightarrow> {} | Some (d, hc, tomorrow_half) \<Rightarrow> set tomorrow_half).
            s \<notin> set target_states)"
  proof (cases "first_pos target_states ?seq 0")
    case None
    then show ?thesis
      unfolding find_next_at_unfold using first_pos_None [of target_states ?seq 0]
      by (simp add: set_search_seq)
  next
    case (Some pos)
    then have "\<not> (\<forall>s\<in>set ?seq. s \<notin> set target_states)"
      using first_pos_None [of target_states ?seq 0] by simp
    moreover have "find_next_at as_utc now target_states base_date today_half idx tomorrow_pack
        \<noteq> Inr None"
      unfolding find_next_at_unfold Some by (simp split: sum.splits)
    ultimately show ?thesis by (simp add: set_search_seq)
  qed
next
  assume a: "length today_half = 48 \<and> valid_datetime now \<and> dt_date now + 1 \<le> MAXORDINAL
        \<and> (\<exists>s\<in>set today_half. s \<in> set target_states)"
  let ?seq = "search_seq today_half idx None"
  have "\<not> (\<forall>s\<in>set ?seq. s \<notin> set target_states)"
    using a by (simp add: set_search_seq)
  then obtain pos where fp: "first_pos target_states ?seq 0 = Some pos"
    using first_pos_None [of target_states ?seq 0] by auto
  from first_pos_SomeD [OF fp] have "pos < length ?seq" by auto
  then have pos: "pos < 48" using a by (simp add: length_search_seq)
  note vb = valid_base_aligned [of now]
  have "\<exists>t. dt_add_minutes (base_aligned now) ((pos + 1) * 30) = Inr t"
    using vb a pos by (intro dt_add_minutes_ok [where d = 1]) simp_all
  then obtain t where t: "dt_add_minutes (base_aligned now) ((pos + 1) * 30) = Inr t"
    by blast
  have "find_next_at as_utc now target_states base_date today_half idx None
      = Inr (Some (as_utc t))"
    unfolding find_next_at_unfold fp using t by simp
  with t pos show "\<exists>k t. 1 \<le> k \<and> k \<le> 48
            \<and> dt_add_minutes (base_aligned now) (k * 30) = Inr t
            \<and> find_next_at as_utc now target_states base_date today_half idx None
                = Inr (Some (as_utc t))"
    by (intro exI [of _ "pos + 1"] exI [of _ t]) simp
qed

theorem find_next_at_absent_iff_witness:
  "find_next_at as_utc_sample
     \<lparr>dt_date = 738886, hour = 10, minute = 15, second = 42, microsecond = 7\<rparr>
     [''off''] 738886 (replicate 48 ''on'') 20 None = Inr None
   \<and> (\<exists>k t. 1 \<le> k \<and> k \<le> (48::nat)
         \<and> find_next_at as_utc_sample
              \<lparr>dt_date = 738886, hour = 10, minute = 15, second = 42, microsecond = 7\<rparr>
              [''off''] 738886 (replicate 12 ''off'' @ replicate 36 ''on'') 20 None
            = Inr (Some (as_utc_sample t)))"
proof -
  let ?now = "\<lparr>dt_date = 738886, hour = 10, minute = 15, second = 42, microsecond = 7\<rparr>"
  let ?today = "replicate 12 ''off'' @ replicate 36 ''on''"
  have a: "\<forall>s \<in> set (replicate 48 ''on'')
      \<union> (case (None :: pack option) of None \<Rightarrow> {} | Some (d, hc, tomorrow_half) \<Rightarrow> set tomorrow_half).
      s \<notin> set [''off'']"
    by simp
  have n: "find_next_at as_utc_sample ?now [''off''] 738886 (replicate 48 ''on'') 20 None = Inr None"
    using find_next_at_absent_iff [of as_utc_sample ?now "[''off'']" 738886 "replicate 48 ''on''" 20 None] a
    by blast
  have b: "length ?today = 48 \<and> valid_datetime ?now \<and> dt_date ?now + 1 \<le> MAXORDINAL
      \<and> (\<exists>s\<in>set ?today. s \<in> set [''off''])"
    by (simp add: valid_datetime_def MAXORDINAL_def)
  have "\<exists>k t. 1 \<le> k \<and> k \<le> (48::nat)
      \<and> dt_add_minutes (base_aligned ?now) (k * 30) = Inr t
      \<and> find_next_at as_utc_sample ?now [''off''] 738886 ?today 20 None
          = Inr (Some (as_utc_sample t))"
    using find_next_at_absent_iff [of as_utc_sample ?now "[''off'']" 738886 ?today 20 None] b
    by blast
  then have "\<exists>k t. 1 \<le> k \<and> k \<le> (48::nat)
      \<and> find_next_at as_utc_sample ?now [''off''] 738886 ?today 20 None
          = Inr (Some (as_utc_sample t))"
    by blast
  with n show ?thesis by blast
qed

section \<open>Properties of the status record\<close>

lemma find_next_at_returns:
  assumes "length today_half = 48"
    and "\<forall>d hc hh. tomorrow_pack = Some (d, hc, hh) \<longrightarrow> length hh = 48"
    and "valid_datetime now" "dt_date now + 2 \<le> MAXORDINAL"
  shows "\<exists>r. find_next_at as_utc now ts base_date today_half idx tomorrow_pack = Inr r"
proof (cases "first_pos ts (search_seq today_half idx tomorrow_pack) 0")
  case None
  then show ?thesis unfolding find_next_at_unfold by simp
next
  case (Some pos)
  let ?seq = "search_seq today_half idx tomorrow_pack"
  from first_pos_SomeD [OF Some] have "pos < length ?seq" by auto
  moreover have "length ?seq \<le> 96"
    using assms(1,2) by (cases tomorrow_pack) (auto simp: length_search_seq)
  ultimately have m: "(pos + 1) * 30 \<le> 1440 * 2" by simp
  note vb = valid_base_aligned [OF assms(3)]
  have "\<exists>t. dt_add_minutes (base_aligned now) ((pos + 1) * 30) = Inr t"
    using vb assms(4) m by (intro dt_add_minutes_ok [where d = 2]) simp_all
  then show ?thesis unfolding find_next_at_unfold Some by auto
qed

lemma build_payload_fields:
  assumes "build_payload isoformat as_utc now_local now_on now_off q
             (today_date, hour_classes, halfhours) tomorrow_pack upd url slm = Inr p"
  shows "queue p = q" "date p = isoformat today_date"
    "now_halfhour_index p = slot_index now_local today_date"
    "py_index halfhours (slot_index now_local today_date) = Inr (now_status p)"
    "today_24h_classes p = hour_classes" "today_48half p = halfhours"
    "updated p = upd" "source p = url" "source_last_modified p = slm"
    "tomorrow_date p = map_option (\<lambda>(d2, hc2, hh2). isoformat d2) tomorrow_pack"
    "tomorrow_24h_classes p = map_option (\<lambda>(d2, hc2, hh2). hc2) tomorrow_pack"
    "tomorrow_48half p = map_option (\<lambda>(d2, hc2, hh2). hh2) tomorrow_pack"
  using assms
  unfolding build_payload_def Let_def slot_index_def
  by (auto split: sum.splits)

lemma slot_index_range:
  "hour now_local < 24 \<Longrightarrow> 0 \<le> slot_index now_local today_date \<and> slot_index now_local today_date < 48"
  by (simp add: slot_index_def)

lemma build_payload_returns:
  assumes len: "length halfhours = 48"
    and tm: "\<forall>d hc hh. tomorrow_pack = Some (d, hc, hh) \<longrightarrow> length hh = 48"
    and nl: "hour now_local < 24"
    and non: "valid_datetime now_on" "dt_date now_on + 2 \<le> MAXORDINAL"
    and noff: "valid_datetime now_off" "dt_date now_off + 2 \<le> MAXORDINAL"
  shows "\<exists>p. build_payload isoformat as_utc now_local now_on now_off q
             (today_date, hour_classes, halfhours) tomorrow_pack upd url slm = Inr p"
proof -
  let ?idx = "slot_index now_local today_date"
  note r = slot_index_range [OF nl, of today_date]
  have cur: "py_index halfhours ?idx = Inr (halfhours ! nat ?idx)"
    using r len by (simp add: py_index_def)
  obtain nci where nci: "next_change_idx halfhours ?idx = Inr nci"
    using next_change_idx_48 [OF len, of ?idx] r by blast
  obtain a where a: "find_next_at as_utc now_on [''on''] today_date halfhours ?idx tomorrow_pack = Inr a"
    using find_next_at_returns [OF len tm non] by blast
  obtain b where b: "find_next_at as_utc now_off [''off''] today_date halfhours ?idx tomorrow_pack = Inr b"
    using find_next_at_returns [OF len tm noff] by blast
  show ?thesis
    unfolding build_payload_def Let_def slot_index_def [symmetric]
    by (simp add: cur nci a b)
qed

text \<open>
  C6. With a 48-slot grid \<open>_build_payload\<close> returns a status record whose slot index
  is \<open>hour * 2 + (1 if minute >= 30 else 0)\<close> when the clock's calendar date is the
  timeline's today date, and 0 when the dates differ; the index lies in 0..47 and the
  reported state is the grid's entry at that index.
\<close>

theorem current_slot_index:
  assumes "length halfhours = 48"
    and "\<forall>d hc hh. tomorrow_pack = Some (d, hc, hh) \<longrightarrow> length hh = 48"
    and "valid_datetime now_local"
    and "valid_datetime now_on" "dt_date now_on + 2 \<le> MAXORDINAL"
    and "valid_datetime now_off" "dt_date now_off + 2 \<le> MAXORDINAL"
  shows "\<exists>p. build_payload isoformat as_utc now_local now_on now_off q
             (today_date, hour_classes, halfhours) tomorrow_pack upd url slm = Inr p
     \<and> (dt_date now_local = today_date \<longrightarrow>
           now_halfhour_index p = int (hour now_local) * 2 + (if 30 \<le> minute now_local then 1 else 0))
     \<and> (dt_date now_local \<noteq> today_date \<longrightarrow> now_halfhour_index p = 0)
     \<and> 0 \<le> now_halfhour_index p \<and> now_halfhour_index p < 48
     \<and> now_status p = halfhours ! nat (now_halfhour_index p)"
proof -
  have nl: "hour now_local < 24" using assms(3) by (simp add: valid_datetime_def)
  obtain p where p: "build_payload isoformat as_utc now_local now_on now_off q
             (today_date, hour_classes, halfhours) tomorrow_pack upd url slm = Inr p"
    using build_payload_returns [OF assms(1,2) nl assms(4-7)] by blast
  note f = build_payload_fields [OF p]
  note r = slot_index_range [OF nl, of today_date]
  have i1: "dt_date now_local = today_date \<longrightarrow>
      now_halfhour_index p = int (hour now_local) * 2 + (if 30 \<le> minute now_local then 1 else 0)"
    unfolding f(3) by (simp add: slot_index_def)
  have i2: "dt_date now_local \<noteq> today_date \<longrightarrow> now_halfhour_index p = 0"
    unfolding f(3) by (simp add: slot_index_def)
  have i3: "0 \<le> now_halfhour_index p \<and> now_halfhour_index p < 48"
    unfolding f(3) using r .
  have "py_index halfhours (now_halfhour_index p) = Inr (halfhours ! nat (now_halfhour_index p))"
    using i3 assms(1) by (simp add: py_index_def)
  then have i4: "now_status p = halfhours ! nat (now_halfhour_index p)"
    using f(4) unfolding f(3) by simp
  from p i1 i2 i3 i4 show ?thesis by blast
qed

theorem current_slot_index_witness:
  "(\<exists>p. build_payload isoformat_sample as_utc_sample
          \<lparr>dt_date = 738886, hour = 10, minute = 15, second = 0, microsecond = 0\<rparr>
          \<lparr>dt_date = 738886, hour = 10, minute = 15, second = 0, microsecond = 0\<rparr>
          \<lparr>dt_date = 738886, hour = 10, minute = 15, second = 0, microsecond = 0\<rparr>
          ''1.1'' (738886, replicate 24 ''on'', replicate 48 ''on'') None ''u'' ''url'' None = Inr p
        \<and> now_halfhour_index p = 20)
   \<and> (\<exists>p. build_payload isoformat_sample as_utc_sample
          \<lparr>dt_date = 738886, hour = 10, minute = 45, second = 0, microsecond = 0\<rparr>
          \<lparr>dt_date = 738886, hour = 10, minute = 45, second = 0, microsecond = 0\<rparr>
          \<lparr>dt_date = 738886, hour = 10, minute = 45, second = 0, microsecond = 0\<rparr>
          ''1.1'' (738886, replicate 24 ''on'', replicate 48 ''on'') None ''u'' ''url'' None = Inr p
        \<and> now_halfhour_index p = 21)
   \<and> (\<exists>p. build_payload isoformat_sample as_utc_sample
          \<lparr>dt_date = 738887, hour = 10, minute = 45, second = 0, microsecond = 0\<rparr>
          \<lparr>dt_date = 738887, hour = 10, minute = 45, second = 0, microsecond = 0\<rparr>
          \<lparr>dt_date = 738887, hour = 10, minute = 45, second = 0, microsecond = 0\<rparr>
          ''1.1'' (738886, replicate 24 ''on'', replicate 48 ''on'') None ''u'' ''url'' None = Inr p
        \<and> now_halfhour_index p = 0)"
proof -
  let ?a = "\<lparr>dt_date = 738886, hour = 10, minute = 15, second = 0, microsecond = 0\<rparr>"
  let ?b = "\<lparr>dt_date = 738886, hour = 10, minute = 45, second = 0, microsecond = 0\<rparr>"
  let ?c = "\<lparr>dt_date = 738887, hour = 10, minute = 45, second = 0, microsecond = 0\<rparr>"
  have len: "length (replicate 48 ''on'') = 48" by simp
  have tm: "\<forall>d hc hh. (None :: pack option) = Some (d, hc, hh) \<longrightarrow> length hh = 48" by simp
  have va: "valid_datetime ?a" "dt_date ?a + 2 \<le> MAXORDINAL"
    by (simp_all add: valid_datetime_def MAXORDINAL_def)
  have vb: "valid_datetime ?b" "dt_date ?b + 2 \<le> MAXORDINAL"
    by (simp_all add: valid_datetime_def MAXORDINAL_def)
  have vc: "valid_datetime ?c" "dt_date ?c + 2 \<le> MAXORDINAL"
    by (simp_all add: valid_datetime_def MAXORDINAL_def)
  have A: "\<exists>p. build_payload isoformat_sample as_utc_sample ?a ?a ?a
          ''1.1'' (738886, replicate 24 ''on'', replicate 48 ''on'') None ''u'' ''url'' None = Inr p
        \<and> now_halfhour_index p = 20"
    using current_slot_index [OF len tm va(1) va va, of isoformat_sample as_utc_sample
        "''1.1''" 738886 "replicate 24 ''on''" "''u''" "''url''" None]
    by auto
  have B: "\<exists>p. build_payload isoformat_sample as_utc_sample ?b ?b ?b
          ''1.1'' (738886, replicate 24 ''on'', replicate 48 ''on'') None ''u'' ''url'' None = Inr p
        \<and> now_halfhour_index p = 21"
    using current_slot_index [OF len tm vb(1) vb vb, of isoformat_sample as_utc_sample
        "''1.1''" 738886 "replicate 24 ''on''" "''u''" "''url''" None]
    by auto
  have C: "\<exists>p. build_payload isoformat_sample as_utc_sample ?c ?c ?c
          ''1.1'' (738886, replicate 24 ''on'', replicate 48 ''on'') None ''u'' ''url'' None = Inr p
        \<and> now_halfhour_index p = 0"
    using current_slot_index [OF len tm vc(1) vc vc, of isoformat_sample as_utc_sample
        "''1.1''" 738886 "replicate 24 ''on''" "''u''" "''url''" None]
    by auto
  from A B C show ?thesis by blast
qed

section \<open>Properties of the precise scheduler\<close>

lemma dt_le_or_less: "dt_le a b \<or> dt_less b a"
  unfolding dt_le_def dt_less_def by auto

lemma precise_candidate_value:
  assumes d: "fromisoformat base_date_iso = Some base_day"
    and parse: "map py_int (split_colon next_change_hhmm []) = [Inr hh, Inr mm]"
    and rng: "0 \<le> hh" "hh \<le> 23" "0 \<le> mm" "mm \<le> 59"
    and day: "1 \<le> base_day" "base_day < MAXORDINAL"
    and c: "candidate = \<lparr>dt_date = base_day, hour = nat hh, minute = nat mm,
                          second = 0, microsecond = 0\<rparr>"
  shows "precise_candidate fromisoformat now1 now2 next_change_hhmm base_date_iso
     = Inr (if dt_le candidate now2 then candidate\<lparr>dt_date := base_day + 1\<rparr> else candidate)"
proof -
  have r: "now1\<lparr>dt_date := base_day, hour := nat hh, minute := nat mm,
                second := 0, microsecond := 0\<rparr> = candidate"
    unfolding c by simp
  have a: "dt_add_days candidate 1 = Inr (candidate\<lparr>dt_date := base_day + 1\<rparr>)"
    using day unfolding c by (simp add: dt_add_days_def date_add_days_def)
  show ?thesis
    using rng a r by (simp add: precise_candidate_def d parse Let_def)
qed

text \<open>
  What \<open>_schedule_precise_refresh\<close> arms. When the record holds a next-change time
  \<open>HH:MM\<close> and a date, the candidate fire instant is that date at \<open>HH:MM:00\<close>; if the candidate is not
  strictly after the clock reading, exactly one calendar day is added, and the result is
  the instant the timer is armed for. Whenever the record's date is not earlier than the
  clock's calendar date, the armed instant is strictly after the clock reading.
\<close>

lemma schedule_precise_refresh_arms:
  assumes hhmm: "next_change_at data = Some next_change_hhmm" "next_change_hhmm \<noteq> []"
    and d: "date data \<noteq> []" "fromisoformat (date data) = Some base_day"
    and parse: "map py_int (split_colon next_change_hhmm []) = [Inr hh, Inr mm]"
    and rng: "0 \<le> hh" "hh \<le> 23" "0 \<le> mm" "mm \<le> 59"
    and day: "1 \<le> base_day" "base_day < MAXORDINAL"
    and c: "candidate = \<lparr>dt_date = base_day, hour = nat hh, minute = nat mm,
                          second = 0, microsecond = 0\<rparr>"
  shows "unsub_precise (schedule_precise_refresh fromisoformat now1 now2 self data)
           = Some (if dt_le candidate now2 then candidate\<lparr>dt_date := base_day + 1\<rparr>
                   else candidate)
     \<and> (dt_date now2 \<le> base_day \<longrightarrow>
           dt_less now2 (if dt_le candidate now2 then candidate\<lparr>dt_date := base_day + 1\<rparr>
                         else candidate))"
proof -
  let ?armed = "if dt_le candidate now2 then candidate\<lparr>dt_date := base_day + 1\<rparr> else candidate"
  have "precise_candidate fromisoformat now1 now2 next_change_hhmm (date data) = Inr ?armed"
    using d(2) parse rng day c by (rule precise_candidate_value)
  then have a: "unsub_precise (schedule_precise_refresh fromisoformat now1 now2 self data)
      = Some ?armed"
    unfolding schedule_precise_refresh_def Let_def using hhmm d(1) by simp
  have b: "dt_date now2 \<le> base_day \<longrightarrow> dt_less now2 ?armed"
  proof
    assume le: "dt_date now2 \<le> base_day"
    show "dt_less now2 ?armed"
    proof (cases "dt_le candidate now2")
      case True
      have "dt_date now2 < dt_date (candidate\<lparr>dt_date := base_day + 1\<rparr>)"
        using le by simp
      then show ?thesis using True by (simp add: dt_less_def)
    next
      case False
      then show ?thesis using dt_le_or_less [of candidate now2] by simp
    qed
  qed
  from a b show ?thesis by blast
qed

lemma schedule_precise_refresh_arms_example:
  "unsub_precise (schedule_precise_refresh fromisoformat_sample
       \<lparr>dt_date = 738886, hour = 5, minute = 0, second = 0, microsecond = 0\<rparr>
       \<lparr>dt_date = 738886, hour = 5, minute = 0, second = 0, microsecond = 0\<rparr>
       sample_coordinator sample_payload)
     = Some \<lparr>dt_date = 738886, hour = 6, minute = 0, second = 0, microsecond = 0\<rparr>
   \<and> dt_less \<lparr>dt_date = 738886, hour = 5, minute = 0, second = 0, microsecond = 0\<rparr>
        \<lparr>dt_date = 738886, hour = 6, minute = 0, second = 0, microsecond = 0\<rparr>
   \<and> unsub_precise (schedule_precise_refresh fromisoformat_sample
       \<lparr>dt_date = 738886, hour = 6, minute = 30, second = 0, microsecond = 0\<rparr>
       \<lparr>dt_date = 738886, hour = 6, minute = 30, second = 0, microsecond = 0\<rparr>
       sample_coordinator sample_payload)
     = Some \<lparr>dt_date = 738887, hour = 6, minute = 0, second = 0, microsecond = 0\<rparr>
   \<and> dt_less \<lparr>dt_date = 738886, hour = 6, minute = 30, second = 0, microsecond = 0\<rparr>
        \<lparr>dt_date = 738887, hour = 6, minute = 0, second = 0, microsecond = 0\<rparr>"
proof -
  let ?c = "\<lparr>dt_date = 738886, hour = nat 6, minute = nat 0, second = 0, microsecond = 0\<rparr>"
  let ?n1 = "\<lparr>dt_date = 738886, hour = 5, minute = 0, second = 0, microsecond = 0\<rparr>"
  let ?n2 = "\<lparr>dt_date = 738886, hour = 6, minute = 30, second = 0, microsecond = 0\<rparr>"
  have h1: "next_change_at sample_payload = Some ''06:00''" by (simp add: sample_payload_def)
  have h2: "''06:00'' \<noteq> []" by simp
  have h3: "date sample_payload \<noteq> []" by (simp add: sample_payload_def)
  have h4: "fromisoformat_sample (date sample_payload) = Some 738886"
    by (simp add: sample_payload_def fromisoformat_sample_def)
  have h5: "map py_int (split_colon ''06:00'' []) = [Inr 6, Inr 0]" by code_simp
  have h6: "(0::int) \<le> 6" "(6::int) \<le> 23" "(0::int) \<le> 0" "(0::int) \<le> 59" by simp_all
  have h7: "(1::int) \<le> 738886" "738886 < MAXORDINAL" by (simp_all add: MAXORDINAL_def)
  have h8: "?c = \<lparr>dt_date = 738886, hour = nat 6, minute = nat 0, second = 0, microsecond = 0\<rparr>"
    by simp
  note t = schedule_precise_refresh_arms [where fromisoformat = fromisoformat_sample
      and data = sample_payload and self = sample_coordinator, OF h1 h2 h3 h4 h5 h6 h7 h8]
  have le1: "\<not> dt_le ?c ?n1" by (simp add: dt_le_def dt_less_def)
  have le2: "dt_le ?c ?n2" by (simp add: dt_le_def dt_less_def)
  have d1: "dt_date ?n1 \<le> 738886" and d2: "dt_date ?n2 \<le> 738886" by simp_all
  from t [of ?n1 ?n1] le1 d1
  have A: "unsub_precise (schedule_precise_refresh fromisoformat_sample ?n1 ?n1
        sample_coordinator sample_payload)
      = Some \<lparr>dt_date = 738886, hour = 6, minute = 0, second = 0, microsecond = 0\<rparr>
    \<and> dt_less ?n1 \<lparr>dt_date = 738886, hour = 6, minute = 0, second = 0, microsecond = 0\<rparr>"
    by simp
  from t [of ?n2 ?n2] le2 d2
  have B: "unsub_precise (schedule_precise_refresh fromisoformat_sample ?n2 ?n2
        sample_coordinator sample_payload)
      = Some \<lparr>dt_date = 738887, hour = 6, minute = 0, second = 0, microsecond = 0\<rparr>
    \<and> dt_less ?n2 \<lparr>dt_date = 738887, hour = 6, minute = 0, second = 0, microsecond = 0\<rparr>"
    by simp
  from A B show ?thesis by blast
qed

text \<open>
  C7. The armed fire instant is meant to lie strictly in the future, and the code moves
  a candidate that is already past by one day for that purpose. One day is not always
  enough: polled on 2 January at 12:00 while the first table is still that of 1 January,
  \<open>_build_payload\<close> reports the next change at 06:00, the candidate is 06:00 of
  1 January, and the timer is armed for 06:00 of 2 January, six hours in the past.
\<close>

theorem stale_date_arms_past_instant:
  "(case build_payload isoformat_sample as_utc_sample
          \<lparr>dt_date = 738887, hour = 12, minute = 0, second = 0, microsecond = 0\<rparr>
          \<lparr>dt_date = 738887, hour = 12, minute = 0, second = 0, microsecond = 0\<rparr>
          \<lparr>dt_date = 738887, hour = 12, minute = 0, second = 0, microsecond = 0\<rparr>
          ''1.1''
          (738886, replicate 6 ''on'' @ replicate 18 ''off'',
           replicate 12 ''on'' @ replicate 36 ''off'')
          None ''2024-01-02T10:00:00+00:00'' ''https://svitlo.live/kyiv'' None of
      Inl e \<Rightarrow> None
    | Inr data \<Rightarrow>
        unsub_precise (schedule_precise_refresh fromisoformat_sample
          \<lparr>dt_date = 738887, hour = 12, minute = 0, second = 0, microsecond = 0\<rparr>
          \<lparr>dt_date = 738887, hour = 12, minute = 0, second = 0, microsecond = 0\<rparr>
          sample_coordinator data))
     = Some \<lparr>dt_date = 738887, hour = 6, minute = 0, second = 0, microsecond = 0\<rparr>
   \<and> dt_less \<lparr>dt_date = 738887, hour = 6, minute = 0, second = 0, microsecond = 0\<rparr>
        \<lparr>dt_date = 738887, hour = 12, minute = 0, second = 0, microsecond = 0\<rparr>"
  by code_simp

text \<open>
  C8. When the timer fires with a cached timeline of 48-slot grids and a published record
  \<open>d\<close>, the callback publishes a record \<open>p\<close> whose poll time stamp, source URL and
  source last-modified field are those of \<open>d\<close>; \<open>p\<close> is \<open>_build_payload\<close> of the cached
  packs at the callback's clock readings. If \<open>d\<close> was built by the last poll from the same
  cached packs, \<open>p\<close> also agrees with \<open>d\<close> on the queue, the date and the schedules of
  today and tomorrow, so only the slot index, the state and the next-change, next-on and
  next-off fields are recomputed. The cache and the armed timer are left as they were
  and one refresh is requested.
\<close>

theorem precise_tick_preserves_metadata:
  assumes cache: "today_pack_cached self = Some (today_date, hour_classes, halfhours)"
    and data: "self_data self = Some d"
    and len: "length halfhours = 48"
    and tm: "\<forall>dt hc hh. tomorrow_pack_cached self = Some (dt, hc, hh) \<longrightarrow> length hh = 48"
    and clock: "valid_datetime now_local"
      "valid_datetime now_on" "dt_date now_on + 2 \<le> MAXORDINAL"
      "valid_datetime now_off" "dt_date now_off + 2 \<le> MAXORDINAL"
  shows "\<exists>self' p.
       precise_tick isoformat as_utc now_local now_on now_off utcnow self = Inr self'
     \<and> self_data self' = Some p
     \<and> updated p = updated d \<and> source p = source d
     \<and> source_last_modified p = source_last_modified d
     \<and> build_payload isoformat as_utc now_local now_on now_off (self_queue self)
           (today_date, hour_classes, halfhours) (tomorrow_pack_cached self)
           (updated d) (source d) (source_last_modified d) = Inr p
     \<and> (build_payload isoformat as_utc poll_local poll_on poll_off (self_queue self)
           (today_date, hour_classes, halfhours) (tomorrow_pack_cached self)
           polled_at url slm = Inr d
         \<longrightarrow> queue p = queue d \<and> date p = date d
           \<and> today_24h_classes p = today_24h_classes d \<and> today_48half p = today_48half d
           \<and> tomorrow_date p = tomorrow_date d
           \<and> tomorrow_24h_classes p = tomorrow_24h_classes d
           \<and> tomorrow_48half p = tomorrow_48half d)
     \<and> today_pack_cached self' = today_pack_cached self
     \<and> tomorrow_pack_cached self' = tomorrow_pack_cached self
     \<and> unsub_precise self' = unsub_precise self
     \<and> refresh_requested self' = Suc (refresh_requested self)"
proof -
  have nl: "hour now_local < 24" using clock(1) by (simp add: valid_datetime_def)
  obtain p where p: "build_payload isoformat as_utc now_local now_on now_off (self_queue self)
           (today_date, hour_classes, halfhours) (tomorrow_pack_cached self)
           (updated d) (source d) (source_last_modified d) = Inr p"
    using build_payload_returns [OF len tm nl clock(2-5)] by blast
  define self' where "self' = self\<lparr>self_data := Some p,
      refresh_requested := Suc (refresh_requested self)\<rparr>"
  have t: "precise_tick isoformat as_utc now_local now_on now_off utcnow self = Inr self'"
    unfolding precise_tick_def self'_def by (simp add: cache data p)
  note f = build_payload_fields [OF p]
  have meta: "updated p = updated d \<and> source p = source d
      \<and> source_last_modified p = source_last_modified d"
    using f(7,8,9) by simp
  have frame: "build_payload isoformat as_utc poll_local poll_on poll_off (self_queue self)
           (today_date, hour_classes, halfhours) (tomorrow_pack_cached self)
           polled_at url slm = Inr d
         \<longrightarrow> queue p = queue d \<and> date p = date d
           \<and> today_24h_classes p = today_24h_classes d \<and> today_48half p = today_48half d
           \<and> tomorrow_date p = tomorrow_date d
           \<and> tomorrow_24h_classes p = tomorrow_24h_classes d
           \<and> tomorrow_48half p = tomorrow_48half d"
  proof
    assume q: "build_payload isoformat as_utc poll_local poll_on poll_off (self_queue self)
           (today_date, hour_classes, halfhours) (tomorrow_pack_cached self)
           polled_at url slm = Inr d"
    note g = build_payload_fields [OF q]
    show "queue p = queue d \<and> date p = date d
           \<and> today_24h_classes p = today_24h_classes d \<and> today_48half p = today_48half d
           \<and> tomorrow_date p = tomorrow_date d
           \<and> tomorrow_24h_classes p = tomorrow_24h_classes d
           \<and> tomorrow_48half p = tomorrow_48half d"
      unfolding f(1,2,5,6,10,11,12) g(1,2,5,6,10,11,12) by simp
  qed
  have st: "self_data self' = Some p \<and> today_pack_cached self' = today_pack_cached self
     \<and> tomorrow_pack_cached self' = tomorrow_pack_cached self
     \<and> unsub_precise self' = unsub_precise self
     \<and> refresh_requested self' = Suc (refresh_requested self)"
    unfolding self'_def by simp
  from t st meta p frame show ?thesis by blast
qed

theorem precise_tick_preserves_metadata_witness:
  "\<exists>self' p.
       precise_tick isoformat_sample as_utc_sample
         \<lparr>dt_date = 738886, hour = 6, minute = 0, second = 0, microsecond = 0\<rparr>
         \<lparr>dt_date = 738886, hour = 6, minute = 0, second = 0, microsecond = 4\<rparr>
         \<lparr>dt_date = 738886, hour = 6, minute = 0, second = 0, microsecond = 9\<rparr>
         ''2024-01-01T04:00:00+00:00'' sample_coordinator = Inr self'
     \<and> self_data self' = Some p
     \<and> updated p = ''2024-01-01T03:00:00+00:00''
     \<and> source p = ''https://svitlo.live/kyiv''
     \<and> source_last_modified p = None
     \<and> today_48half p = replicate 12 ''on'' @ replicate 36 ''off''
     \<and> refresh_requested self' = 1"
proof -
  let ?n1 = "\<lparr>dt_date = 738886, hour = 6, minute = 0, second = 0, microsecond = 0\<rparr>"
  let ?n2 = "\<lparr>dt_date = 738886, hour = 6, minute = 0, second = 0, microsecond = 4\<rparr>"
  let ?n3 = "\<lparr>dt_date = 738886, hour = 6, minute = 0, second = 0, microsecond = 9\<rparr>"
  let ?p5 = "\<lparr>dt_date = 738886, hour = 5, minute = 0, second = 0, microsecond = 0\<rparr>"
  have h1: "today_pack_cached sample_coordinator
      = Some (738886, replicate 6 ''on'' @ replicate 18 ''off'',
              replicate 12 ''on'' @ replicate 36 ''off'')"
    by (simp add: sample_coordinator_def)
  have h2: "self_data sample_coordinator = Some sample_payload"
    by (simp add: sample_coordinator_def)
  have h3: "length (replicate 12 ''on'' @ replicate 36 ''off'') = 48" by simp
  have h4: "\<forall>dt hc hh. tomorrow_pack_cached sample_coordinator = Some (dt, hc, hh)
      \<longrightarrow> length hh = 48"
    by (simp add: sample_coordinator_def)
  have v: "valid_datetime ?n1" "valid_datetime ?n2" "dt_date ?n2 + 2 \<le> MAXORDINAL"
    "valid_datetime ?n3" "dt_date ?n3 + 2 \<le> MAXORDINAL"
    by (simp_all add: valid_datetime_def MAXORDINAL_def)
  have poll: "build_payload isoformat_sample as_utc_sample ?p5 ?p5 ?p5
      (self_queue sample_coordinator)
      (738886, replicate 6 ''on'' @ replicate 18 ''off'', replicate 12 ''on'' @ replicate 36 ''off'')
      (tomorrow_pack_cached sample_coordinator)
      ''2024-01-01T03:00:00+00:00'' ''https://svitlo.live/kyiv'' None = Inr sample_payload"
    by code_simp
  from precise_tick_preserves_metadata [OF h1 h2 h3 h4 v, of isoformat_sample as_utc_sample
      "''2024-01-01T04:00:00+00:00''" ?p5 ?p5 ?p5
      "''2024-01-01T03:00:00+00:00''" "''https://svitlo.live/kyiv''" None] poll
  obtain self' p where r:
    "precise_tick isoformat_sample as_utc_sample ?n1 ?n2 ?n3
       ''2024-01-01T04:00:00+00:00'' sample_coordinator = Inr self'"
    "self_data self' = Some p"
    "updated p = updated sample_payload" "source p = source sample_payload"
    "source_last_modified p = source_last_modified sample_payload"
    "today_48half p = today_48half sample_payload"
    "refresh_requested self' = Suc (refresh_requested sample_coordinator)"
    by blast
  have "updated p = ''2024-01-01T03:00:00+00:00''" "source p = ''https://svitlo.live/kyiv''"
    "source_last_modified p = None"
    "today_48half p = replicate 12 ''on'' @ replicate 36 ''off''"
    "refresh_requested self' = 1"
    using r(3-7) by (simp_all add: sample_payload_def sample_coordinator_def)
  with r(1,2) show ?thesis by blast
qed

section \<open>Properties of the interval builder\<close>

lemma make_event_no_IndexError:
  "make_event summary as_utc day a b \<noteq> Inl IndexError"
  by (auto simp: make_event_def CalendarEvent_def date_add_days_def Let_def
      split: if_splits sum.splits)

lemma day_events_loop_no_IndexError:
  assumes "\<forall>i\<in>set is. i < length halfhours"
  shows "day_events_loop summary as_utc day halfhours is st \<noteq> Inl IndexError"
  using assms
proof (induction "is" arbitrary: st)
  case Nil
  then show ?case by simp
next
  case (Cons i rest)
  obtain cur start evs where st: "st = (cur, start, evs)" by (cases st) auto
  have i: "py_index halfhours (int i) = Inr (halfhours ! i)"
    using Cons.prems by (simp add: py_index_def)
  have rest: "day_events_loop summary as_utc day halfhours rest st' \<noteq> Inl IndexError" for st'
    using Cons.IH Cons.prems by simp
  show ?case
    unfolding st using i rest make_event_no_IndexError [of summary as_utc day start i]
    by (auto split: sum.splits)
qed

lemma make_event_constructed:
  assumes "a < 48" "b \<le> 48" "1 \<le> day" "day < MAXORDINAL"
  shows "make_event summary as_utc day a b =
     CalendarEvent summary (as_utc (slot_start day a)) (as_utc (slot_start day b))
       (''No electricity '' @ strftime_HM (slot_start day a)
          @ en_dash @ strftime_HM (slot_start day b))"
proof (cases "b < 48")
  case True
  have "\<not> 23 < a div 2" using assms(1) by arith
  then show ?thesis
    using True assms(1) by (simp add: make_event_def slot_start_def Let_def)
next
  case False
  then have b: "b = 48" using assms(2) by simp
  have "date_add_days day 1 = Inr (day + 1)"
    using assms(3,4) by (simp add: date_add_days_def)
  moreover have "\<not> 23 < a div 2" using assms(1) by arith
  ultimately show ?thesis
    using assms(1) unfolding b by (simp add: make_event_def slot_start_def Let_def)
qed

lemma make_event_value:
  assumes "a < b" "b \<le> 48" "1 \<le> day" "day < MAXORDINAL"
    and mono: "\<forall>i j. i < j \<and> j \<le> 48 \<longrightarrow>
        as_utc (slot_start day i) < as_utc (slot_start day j)"
  shows "\<exists>ev. make_event summary as_utc day a b = Inr ev
     \<and> ev_start ev = as_utc (slot_start day a) \<and> ev_end ev = as_utc (slot_start day b)"
proof -
  have a: "a < 48" using assms(1,2) by simp
  have "as_utc (slot_start day a) < as_utc (slot_start day b)"
    using mono assms(1,2) by blast
  then have "\<not> as_utc (slot_start day b) < as_utc (slot_start day a)" by simp
  then show ?thesis
    unfolding make_event_constructed [OF a assms(2,3,4)] by (simp add: CalendarEvent_def)
qed

lemma day_events_loop_append:
  "day_events_loop summary as_utc day halfhours (xs @ ys) st =
     (case day_events_loop summary as_utc day halfhours xs st of
        Inl e \<Rightarrow> Inl e
      | Inr st' \<Rightarrow> day_events_loop summary as_utc day halfhours ys st')"
proof (induction xs arbitrary: st)
  case Nil
  then show ?case by simp
next
  case (Cons i rest)
  obtain cur start evs where st: "st = (cur, start, evs)" by (cases st) auto
  show ?case unfolding st by (simp add: Cons.IH split: sum.splits)
qed

lemma covered_Nil: "\<not> covered as_utc day [] i"
  by (simp add: covered_def)

lemma covered_snoc:
  "covered as_utc day (evs @ [ev]) i \<longleftrightarrow>
     covered as_utc day evs i
     \<or> (ev_start ev \<le> as_utc (slot_start day i) \<and> as_utc (slot_start day i) < ev_end ev)"
  by (auto simp: covered_def)

lemma mono_le:
  fixes T :: "nat \<Rightarrow> int"
  assumes mono: "\<forall>i j. i < j \<and> j \<le> 48 \<longrightarrow> T i < T j" and "a \<le> 48" "i \<le> 48"
  shows "T a \<le> T i \<longleftrightarrow> a \<le> i"
proof
  assume le: "T a \<le> T i"
  show "a \<le> i"
  proof (rule ccontr)
    assume "\<not> a \<le> i"
    then have "i < a" by simp
    then have "T i < T a" using mono assms(2) by blast
    then show False using le by simp
  qed
next
  assume "a \<le> i"
  then have "a = i \<or> a < i" by auto
  then show "T a \<le> T i"
  proof
    assume "a = i" then show ?thesis by simp
  next
    assume "a < i"
    then have "T a < T i" using mono assms(3) by blast
    then show ?thesis by simp
  qed
qed

lemma mono_less:
  fixes T :: "nat \<Rightarrow> int"
  assumes mono: "\<forall>i j. i < j \<and> j \<le> 48 \<longrightarrow> T i < T j" and "i \<le> 48" "b \<le> 48"
  shows "T i < T b \<longleftrightarrow> i < b"
  using mono_le [OF mono assms(3,2)] by auto

lemma event_covers:
  assumes mono: "\<forall>i j. i < j \<and> j \<le> 48 \<longrightarrow>
        as_utc (slot_start day i) < as_utc (slot_start day j)"
    and ev: "ev_start ev = as_utc (slot_start day a)" "ev_end ev = as_utc (slot_start day b)"
    and "a \<le> 48" "b \<le> 48" "i < 48"
  shows "ev_start ev \<le> as_utc (slot_start day i) \<and> as_utc (slot_start day i) < ev_end ev
     \<longleftrightarrow> a \<le> i \<and> i < b"
proof -
  let ?T = "\<lambda>i. as_utc (slot_start day i)"
  have i: "i \<le> 48" using assms(6) by simp
  have "?T a \<le> ?T i \<longleftrightarrow> a \<le> i"
    using mono_le [of ?T a i] mono assms(4) i by blast
  moreover have "?T i < ?T b \<longleftrightarrow> i < b"
    using mono_less [of ?T i b] mono assms(5) i by blast
  ultimately show ?thesis unfolding ev by blast
qed

lemma day_events_step:
  assumes len: "length hh = 48" and day: "1 \<le> day" "day < MAXORDINAL"
    and mono: "\<forall>i j. i < j \<and> j \<le> 48 \<longrightarrow>
        as_utc (slot_start day i) < as_utc (slot_start day j)"
    and n: "1 \<le> n" "n < 48"
    and inv: "loop_inv as_utc day hh n st"
  shows "\<exists>st'. day_events_loop summary as_utc day hh [n] st = Inr st'
     \<and> loop_inv as_utc day hh (Suc n) st'"
proof -
  obtain cur start evs where st: "st = (cur, start, evs)" by (cases st) auto
  have i1: "start < n" and i2: "cur = hh ! (n - 1)"
    and i3: "\<forall>i. start \<le> i \<and> i < n \<longrightarrow> hh ! i = cur"
    and i4: "\<forall>i<48. covered as_utc day evs i \<longleftrightarrow> i < start \<and> hh ! i = ''off''"
    using inv unfolding st loop_inv_def by auto
  have idx: "py_index hh (int n) = Inr (hh ! n)"
    using n len by (simp add: py_index_def)
  show ?thesis
  proof (cases "hh ! n = cur")
    case True
    have "day_events_loop summary as_utc day hh [n] st = Inr (cur, start, evs)"
      unfolding st using idx True by simp
    moreover have "loop_inv as_utc day hh (Suc n) (cur, start, evs)"
      unfolding loop_inv_def using i1 i3 i4 True by (auto simp: less_Suc_eq)
    ultimately show ?thesis by blast
  next
    case False
    show ?thesis
    proof (cases "cur = ''off''")
      case off: True
      obtain ev where ev: "make_event summary as_utc day start n = Inr ev"
        "ev_start ev = as_utc (slot_start day start)" "ev_end ev = as_utc (slot_start day n)"
        using make_event_value [of start n day as_utc summary] i1 n day mono by auto
      have run: "day_events_loop summary as_utc day hh [n] st = Inr (hh ! n, n, evs @ [ev])"
        unfolding st using idx False off ev(1) by simp
      have cov: "covered as_utc day (evs @ [ev]) i \<longleftrightarrow> i < n \<and> hh ! i = ''off''"
        if "i < 48" for i
      proof -
        have "ev_start ev \<le> as_utc (slot_start day i) \<and> as_utc (slot_start day i) < ev_end ev
            \<longleftrightarrow> start \<le> i \<and> i < n"
          using event_covers [OF mono ev(2,3), of i] i1 n that by simp
        then have "covered as_utc day (evs @ [ev]) i
            \<longleftrightarrow> (i < start \<and> hh ! i = ''off'') \<or> (start \<le> i \<and> i < n)"
          using i4 that by (simp add: covered_snoc)
        also have "\<dots> \<longleftrightarrow> i < n \<and> hh ! i = ''off''"
          using i1 i3 off by auto
        finally show ?thesis .
      qed
      have "loop_inv as_utc day hh (Suc n) (hh ! n, n, evs @ [ev])"
        unfolding loop_inv_def using cov by (auto simp: less_Suc_eq)
      with run show ?thesis by blast
    next
      case on: False
      have run: "day_events_loop summary as_utc day hh [n] st = Inr (hh ! n, n, evs)"
        unfolding st using idx False on by simp
      have cov: "covered as_utc day evs i \<longleftrightarrow> i < n \<and> hh ! i = ''off''" if "i < 48" for i
      proof -
        have "covered as_utc day evs i \<longleftrightarrow> i < start \<and> hh ! i = ''off''"
          using i4 that by simp
        also have "\<dots> \<longleftrightarrow> i < n \<and> hh ! i = ''off''"
          using i1 i3 on by (metis less_trans not_le_imp_less)
        finally show ?thesis .
      qed
      have "loop_inv as_utc day hh (Suc n) (hh ! n, n, evs)"
        unfolding loop_inv_def using cov by (auto simp: less_Suc_eq)
      with run show ?thesis by blast
    qed
  qed
qed

lemma day_events_loop_invariant:
  assumes len: "length hh = 48" and day: "1 \<le> day" "day < MAXORDINAL"
    and mono: "\<forall>i j. i < j \<and> j \<le> 48 \<longrightarrow>
        as_utc (slot_start day i) < as_utc (slot_start day j)"
  shows "Suc m \<le> 48 \<Longrightarrow>
     \<exists>st. day_events_loop summary as_utc day hh [1..<Suc m] (hh ! 0, 0, []) = Inr st
       \<and> loop_inv as_utc day hh (Suc m) st"
proof (induction m)
  case 0
  have "loop_inv as_utc day hh (Suc 0) (hh ! 0, 0, [])"
    unfolding loop_inv_def by (simp add: covered_Nil)
  then show ?case by simp
next
  case (Suc m)
  then obtain st where st: "day_events_loop summary as_utc day hh [1..<Suc m] (hh ! 0, 0, []) = Inr st"
    "loop_inv as_utc day hh (Suc m) st"
    by auto
  have n: "1 \<le> Suc m" "Suc m < 48" using Suc.prems by simp_all
  obtain st' where st': "day_events_loop summary as_utc day hh [Suc m] st = Inr st'"
    "loop_inv as_utc day hh (Suc (Suc m)) st'"
    using day_events_step [OF len day mono n st(2)] by blast
  have "[1..<Suc (Suc m)] = [1..<Suc m] @ [Suc m]" by simp
  then have "day_events_loop summary as_utc day hh [1..<Suc (Suc m)] (hh ! 0, 0, []) = Inr st'"
    using st(1) st'(1) by (simp only: day_events_loop_append sum.case)
  with st'(2) show ?case by blast
qed

lemma loop_invD:
  assumes "loop_inv as_utc day hh n (cur, start, evs)"
  shows "start < n \<and> cur = hh ! (n - 1)
     \<and> (\<forall>i. start \<le> i \<and> i < n \<longrightarrow> hh ! i = cur)
     \<and> (\<forall>i<48. covered as_utc day evs i \<longleftrightarrow> i < start \<and> hh ! i = ''off'')"
  using assms unfolding loop_inv_def by simp

lemma day_events_loop_48:
  assumes len: "length hh = 48"
    and day: "1 \<le> day" "day < MAXORDINAL"
    and mono: "\<forall>i j. i < j \<and> j \<le> 48 \<longrightarrow>
        as_utc (slot_start day i) < as_utc (slot_start day j)"
  shows "\<exists>st. day_events_loop summary as_utc day hh [1..<48] (hh ! 0, 0, []) = Inr st
     \<and> loop_inv as_utc day hh 48 st"
proof -
  have e: "Suc 47 = 48" and le: "Suc 47 \<le> 48" by simp_all
  from day_events_loop_invariant [OF len day mono le, of summary]
  show ?thesis unfolding e .
qed

lemma build_day_events_covered:
  assumes len: "length hh = 48"
    and ds: "date_str \<noteq> []" "fromisoformat date_str = Some day"
    and day: "1 \<le> day" "day < MAXORDINAL"
    and mono: "\<forall>i j. i < j \<and> j \<le> 48 \<longrightarrow>
        as_utc (slot_start day i) < as_utc (slot_start day j)"
  shows "\<exists>events. build_day_events summary as_utc fromisoformat (Some date_str) hh = Inr events
     \<and> (\<forall>i<48. covered as_utc day events i \<longleftrightarrow> hh ! i = ''off'')
     \<and> (hh ! 47 = ''off'' \<longrightarrow> events \<noteq> []
           \<and> ev_end (last events) = as_utc (slot_start day 48))"
proof -
  from day_events_loop_48 [OF len day mono, of summary]
  obtain st where st: "day_events_loop summary as_utc day hh [1..<48] (hh ! 0, 0, []) = Inr st"
    "loop_inv as_utc day hh 48 st"
    by blast
  obtain cur start evs where s: "st = (cur, start, evs)" by (cases st) auto
  note d = loop_invD [OF st(2) [unfolded s]]
  have i1: "start < 48" using d by blast
  have "cur = hh ! (48 - 1)" using d by blast
  then have i2: "cur = hh ! 47" by simp
  have i3: "\<forall>i. start \<le> i \<and> i < 48 \<longrightarrow> hh ! i = cur" using d by blast
  have i4: "\<forall>i<48. covered as_utc day evs i \<longleftrightarrow> i < start \<and> hh ! i = ''off''"
    using d by blast
  have loop: "day_events_loop summary as_utc day hh [1..<48] (hh ! 0, 0, []) = Inr (cur, start, evs)"
    using st(1) unfolding s .
  have first: "py_index hh 0 = Inr (hh ! 0)" using len by (simp add: py_index_def)
  have ne: "hh \<noteq> []" using len by auto
  show ?thesis
  proof (cases "cur = ''off''")
    case True
    obtain ev where ev: "make_event summary as_utc day start 48 = Inr ev"
      "ev_start ev = as_utc (slot_start day start)" "ev_end ev = as_utc (slot_start day 48)"
      using make_event_value [of start 48 day as_utc summary] i1 day mono by auto
    have r: "build_day_events summary as_utc fromisoformat (Some date_str) hh = Inr (evs @ [ev])"
      unfolding build_day_events_def using ds len ne first loop True ev(1)
      by (simp del: upt_rec_numeral)
    have cov: "\<forall>i<48. covered as_utc day (evs @ [ev]) i \<longleftrightarrow> hh ! i = ''off''"
    proof (intro allI impI)
      fix i :: nat assume i: "i < 48"
      have "ev_start ev \<le> as_utc (slot_start day i) \<and> as_utc (slot_start day i) < ev_end ev
          \<longleftrightarrow> start \<le> i \<and> i < 48"
        using event_covers [OF mono ev(2,3), of i] i1 i by simp
      then have "covered as_utc day (evs @ [ev]) i
          \<longleftrightarrow> (i < start \<and> hh ! i = ''off'') \<or> start \<le> i"
        using i4 i by (simp add: covered_snoc)
      also have "\<dots> \<longleftrightarrow> hh ! i = ''off''"
        using i3 i True by auto
      finally show "covered as_utc day (evs @ [ev]) i \<longleftrightarrow> hh ! i = ''off''" .
    qed
    have "evs @ [ev] \<noteq> [] \<and> ev_end (last (evs @ [ev])) = as_utc (slot_start day 48)"
      using ev(3) by simp
    with r cov show ?thesis by blast
  next
    case False
    have r: "build_day_events summary as_utc fromisoformat (Some date_str) hh = Inr evs"
      unfolding build_day_events_def using ds len ne first loop False
      by (simp del: upt_rec_numeral)
    have cov: "\<forall>i<48. covered as_utc day evs i \<longleftrightarrow> hh ! i = ''off''"
    proof (intro allI impI)
      fix i :: nat assume i: "i < 48"
      have "covered as_utc day evs i \<longleftrightarrow> i < start \<and> hh ! i = ''off''"
        using i4 i by simp
      also have "\<dots> \<longleftrightarrow> hh ! i = ''off''"
        using i3 i False by (metis not_le_imp_less)
      finally show "covered as_utc day evs i \<longleftrightarrow> hh ! i = ''off''" .
    qed
    have "hh ! 47 \<noteq> ''off''" using False i2 by simp
    with r cov show ?thesis by blast
  qed
qed

lemma reexpand_nth:
  "i < 48 \<Longrightarrow> reexpand as_utc day events ! i = (if covered as_utc day events i then ''off'' else ''on'')"
  unfolding reexpand_def by (simp del: upt_Suc)

lemma length_reexpand: "length (reexpand as_utc day events) = 48"
  by (simp add: reexpand_def)

lemma as_utc_sample_slot_start:
  assumes "i \<le> 48"
  shows "as_utc_sample (slot_start day i) = day * 86400 + int i * 1800 - 7200"
proof (cases "i < 48")
  case True
  show ?thesis
  proof (cases "even i")
    case even: True
    then obtain k where k: "i = 2 * k" by (auto elim: evenE)
    have "k < 24" using True k by simp
    then show ?thesis
      unfolding k by (simp add: as_utc_sample_def slot_start_def)
  next
    case odd: False
    then obtain k where k: "i = 2 * k + 1" by (auto elim: oddE)
    have "k < 24" using True k by simp
    then show ?thesis
      unfolding k by (simp add: as_utc_sample_def slot_start_def)
  qed
next
  case False
  then have "i = 48" using assms by simp
  then show ?thesis by (simp add: as_utc_sample_def slot_start_def)
qed

lemma as_utc_sample_mono:
  "\<forall>i j. i < j \<and> j \<le> 48 \<longrightarrow>
     as_utc_sample (slot_start day i) < as_utc_sample (slot_start day j)"
proof (intro allI impI)
  fix i j :: nat assume a: "i < j \<and> j \<le> 48"
  then have "i \<le> 48" "j \<le> 48" by simp_all
  then show "as_utc_sample (slot_start day i) < as_utc_sample (slot_start day j)"
    using a by (simp add: as_utc_sample_slot_start)
qed

text \<open>
  The round trip on a day without a clock change. For every 48-slot grid of a day whose
  date label parses, \<open>_build_day_events\<close> returns events whose re-expansion onto the grid is off exactly at the slots where the
  grid is off, and is the grid itself when the grid holds only on and off. A run that
  reaches slot 47 gives a last event that ends at midnight of the following day. The
  host's conversion \<open>as_utc\<close> is assumed to be strictly increasing along the 49 slot
  boundaries of the day, and the following day to be representable.
\<close>

lemma build_day_events_round_trip:
  assumes len: "length halfhours = 48"
    and ds: "date_str \<noteq> []" "fromisoformat date_str = Some day"
    and day: "1 \<le> day" "day < MAXORDINAL"
    and mono: "\<forall>i j. i < j \<and> j \<le> 48 \<longrightarrow>
        as_utc (slot_start day i) < as_utc (slot_start day j)"
  shows "\<exists>events.
       build_day_events summary as_utc fromisoformat (Some date_str) halfhours = Inr events
     \<and> (\<forall>i<48. reexpand as_utc day events ! i = ''off'' \<longleftrightarrow> halfhours ! i = ''off'')
     \<and> (set halfhours \<subseteq> {''on'', ''off''} \<longrightarrow> reexpand as_utc day events = halfhours)
     \<and> (halfhours ! 47 = ''off'' \<longrightarrow> events \<noteq> []
           \<and> ev_end (last events)
               = as_utc \<lparr>dt_date = day + 1, hour = 0, minute = 0, second = 0, microsecond = 0\<rparr>)"
proof -
  obtain events where ev:
    "build_day_events summary as_utc fromisoformat (Some date_str) halfhours = Inr events"
    "\<forall>i<48. covered as_utc day events i \<longleftrightarrow> halfhours ! i = ''off''"
    "halfhours ! 47 = ''off'' \<longrightarrow> events \<noteq> []
       \<and> ev_end (last events) = as_utc (slot_start day 48)"
    using build_day_events_covered [where fromisoformat = fromisoformat and as_utc = as_utc,
        OF len ds day mono] by blast
  have a: "\<forall>i<48. reexpand as_utc day events ! i = ''off'' \<longleftrightarrow> halfhours ! i = ''off''"
    using ev(2) by (simp add: reexpand_nth)
  have b: "set halfhours \<subseteq> {''on'', ''off''} \<longrightarrow> reexpand as_utc day events = halfhours"
  proof
    assume sub: "set halfhours \<subseteq> {''on'', ''off''}"
    show "reexpand as_utc day events = halfhours"
    proof (rule nth_equalityI)
      show "length (reexpand as_utc day events) = length halfhours"
        using len by (simp add: length_reexpand)
    next
      fix i assume "i < length (reexpand as_utc day events)"
      then have i: "i < 48" by (simp add: length_reexpand)
      then have "halfhours ! i \<in> {''on'', ''off''}"
        using sub len by (metis nth_mem subsetD)
      then show "reexpand as_utc day events ! i = halfhours ! i"
        using ev(2) i by (auto simp: reexpand_nth)
    qed
  qed
  have c: "halfhours ! 47 = ''off'' \<longrightarrow> events \<noteq> []
       \<and> ev_end (last events)
           = as_utc \<lparr>dt_date = day + 1, hour = 0, minute = 0, second = 0, microsecond = 0\<rparr>"
    using ev(3) by (simp add: slot_start_def)
  from ev(1) a b c show ?thesis by blast
qed

lemma build_day_events_round_trip_example:
  "\<exists>events.
     build_day_events ''Power outage'' as_utc_sample fromisoformat_sample (Some ''2024-01-01'')
       (replicate 12 ''off'' @ replicate 34 ''on'' @ replicate 2 ''off'') = Inr events
   \<and> reexpand as_utc_sample 738886 events
       = replicate 12 ''off'' @ replicate 34 ''on'' @ replicate 2 ''off''
   \<and> events \<noteq> []
   \<and> ev_end (last events)
       = as_utc_sample \<lparr>dt_date = 738887, hour = 0, minute = 0, second = 0, microsecond = 0\<rparr>"
proof -
  let ?hh = "replicate 12 ''off'' @ replicate 34 ''on'' @ replicate 2 ''off''"
  have h1: "length ?hh = 48" by simp
  have h2: "''2024-01-01'' \<noteq> []" by simp
  have h3: "fromisoformat_sample ''2024-01-01'' = Some 738886"
    by (simp add: fromisoformat_sample_def)
  have h4: "(1::int) \<le> 738886" "738886 < MAXORDINAL" by (simp_all add: MAXORDINAL_def)
  have sub: "set ?hh \<subseteq> {''on'', ''off''}" by auto
  have last: "?hh ! 47 = ''off''" by (simp add: nth_append)
  from build_day_events_round_trip [where fromisoformat = fromisoformat_sample
      and as_utc = as_utc_sample and summary = "''Power outage''",
      OF h1 h2 h3 h4 as_utc_sample_mono] sub last
  show ?thesis by auto
qed

text \<open>
  C10. \<open>_build_day_events\<close> returns the empty list, and raises nothing, when the date
  label is absent or empty or the grid does not have exactly 48 entries; and on no input
  at all does it raise \<open>IndexError\<close>, so no index outside the grid is read.
\<close>

theorem build_day_events_guard:
  "(date_str = None \<or> date_str = Some [] \<or> length halfhours \<noteq> 48
      \<longrightarrow> build_day_events summary as_utc fromisoformat date_str halfhours = Inr [])
   \<and> build_day_events summary as_utc fromisoformat date_str halfhours \<noteq> Inl IndexError"
proof
  show "date_str = None \<or> date_str = Some [] \<or> length halfhours \<noteq> 48
      \<longrightarrow> build_day_events summary as_utc fromisoformat date_str halfhours = Inr []"
    by (auto simp: build_day_events_def split: option.splits)
next
  show "build_day_events summary as_utc fromisoformat date_str halfhours \<noteq> Inl IndexError"
  proof (cases "date_str = None \<or> date_str = Some [] \<or> length halfhours \<noteq> 48")
    case True
    then show ?thesis by (auto simp: build_day_events_def split: option.splits)
  next
    case False
    then obtain ds where ds: "date_str = Some ds" "ds \<noteq> []" and len: "length halfhours = 48"
      by auto
    have ne: "halfhours \<noteq> []" using len by auto
    have first: "py_index halfhours 0 = Inr (halfhours ! 0)" using len by (simp add: py_index_def)
    have loop: "day_events_loop summary as_utc day halfhours [1..<48] st \<noteq> Inl IndexError"
      for day st
      using len by (intro day_events_loop_no_IndexError) simp
    show ?thesis
    proof (cases "fromisoformat ds")
      case None
      then show ?thesis
        unfolding build_day_events_def ds using ds(2) len ne by simp
    next
      case (Some day)
      let ?loop = "day_events_loop summary as_utc day halfhours [1..<48] (halfhours ! 0, 0, [])"
      have unf: "build_day_events summary as_utc fromisoformat date_str halfhours =
          (case ?loop of
             Inl e \<Rightarrow> Inl e
           | Inr (current_state, start_idx, events) \<Rightarrow>
               if current_state = ''off'' then
                 (case make_event summary as_utc day start_idx 48 of
                    Inl e \<Rightarrow> Inl e
                  | Inr ev \<Rightarrow> Inr (events @ [ev]))
               else Inr events)"
        unfolding build_day_events_def ds using ds(2) len ne first Some
        by (simp del: upt_rec_numeral)
      show ?thesis
      proof (cases ?loop)
        case (Inl e)
        then have "e \<noteq> IndexError" using loop [of day "(halfhours ! 0, 0, [])"] by auto
        then show ?thesis unfolding unf Inl by simp
      next
        case (Inr st)
        obtain cur start evs where st: "st = (cur, start, evs)" by (cases st) auto
        show ?thesis
          unfolding unf Inr st
          using make_event_no_IndexError [of summary as_utc day start 48]
          by (cases "make_event summary as_utc day start 48") auto
      qed
    qed
  qed
qed

theorem build_day_events_guard_witness:
  "build_day_events ''Power outage'' as_utc_sample fromisoformat_sample None
     (replicate 48 ''off'') = Inr []
   \<and> build_day_events ''Power outage'' as_utc_sample fromisoformat_sample (Some ''2024-01-01'')
       (replicate 47 ''off'') = Inr []"
proof -
  have a: "build_day_events ''Power outage'' as_utc_sample fromisoformat_sample None
     (replicate 48 ''off'') = Inr []"
    using build_day_events_guard [of None "replicate 48 ''off''" "''Power outage''"
        as_utc_sample fromisoformat_sample]
    by blast
  have "length (replicate 47 ''off'') \<noteq> 48" by simp
  then have b: "build_day_events ''Power outage'' as_utc_sample fromisoformat_sample
       (Some ''2024-01-01'') (replicate 47 ''off'') = Inr []"
    using build_day_events_guard [of "Some ''2024-01-01''" "replicate 47 ''off''"
        "''Power outage''" as_utc_sample fromisoformat_sample]
    by blast
  from a b show ?thesis by blast
qed

text \<open>
  C5. The round trip is to hold for every grid, and \<open>_make_event\<close> is to give an event
  for every off run. On 31 March 2024, when the clock of Europe/Kyiv skips from 03:00 to
  04:00, the code does neither. The run that is slot 7 alone (03:30 to 04:00 local)
  starts at 01:30 UTC and ends at 01:00 UTC, the constructor refuses the event and no
  events are returned. The run that is slot 6 alone (03:00 to 03:30 local) gives an
  event from 01:00 to 01:30 UTC, in which slot 8 (04:00 local, 01:00 UTC) begins as well,
  so the events re-expand to a grid that is off in slots 6 and 8.
\<close>

theorem build_day_events_clock_change_day:
  "build_day_events ''Power outage'' as_utc_kyiv fromisoformat_sample (Some ''2024-03-31'')
     (replicate 7 ''on'' @ [''off''] @ replicate 40 ''on'') = Inl HomeAssistantError
   \<and> (case build_day_events ''Power outage'' as_utc_kyiv fromisoformat_sample
            (Some ''2024-03-31'') (replicate 6 ''on'' @ [''off''] @ replicate 41 ''on'') of
        Inl e \<Rightarrow> Inl e
      | Inr events \<Rightarrow> Inr (reexpand as_utc_kyiv 738976 events))
     = Inr (replicate 6 ''on'' @ [''off'', ''on'', ''off''] @ replicate 39 ''on'')"
  by code_simp

end
